theory Spec2Isabelle
  imports Main "HOL-Library.AList"
begin

section \<open>Strings and the regular expressions of the batch generator\<close>

text \<open>
  A JavaScript string is a sequence of UTF-16 code units. A \<^typ>\<open>char\<close> stands for the
  code unit of the same value, so the strings of the model are the JavaScript strings over
  U+0000..U+00FF.

  The regular expressions of the module carry the flags \<^verbatim>\<open>gi\<close> and not \<^verbatim>\<open>u\<close>: two code
  units match when their canonical forms are equal, the canonical form being the upper-case
  code unit, unless upper-casing yields more than one unit (U+00DF) or maps a non-ASCII unit
  to an ASCII one. On U+0000..U+00FF: a-z and U+00E0..U+00FE except U+00F7 move down by 32,
  U+00FF goes to U+0178, U+00B5 to U+039C, every other unit is its own canonical form.
\<close>

definition canonicalize :: "char \<Rightarrow> nat" where
  "canonicalize c =
     (let n = of_char c in
      if 97 \<le> n \<and> n \<le> 122 then n - 32
      else if 224 \<le> n \<and> n \<le> 254 \<and> n \<noteq> 247 then n - 32
      else if n = 255 then 376
      else if n = 181 then 924
      else n)"

text \<open>A literal pattern matches at the start of the subject, case-insensitively.\<close>

fun matchesAt :: "string \<Rightarrow> string \<Rightarrow> bool" where
  "matchesAt [] s = True"
| "matchesAt (p # ps) [] = False"
| "matchesAt (p # ps) (c # cs) = (canonicalize p = canonicalize c \<and> matchesAt ps cs)"

text \<open>
  A disjunction of literal alternatives: the alternatives are tried from left to right and
  the first that matches fixes the length of the match.
\<close>

fun matchLength :: "string list \<Rightarrow> string \<Rightarrow> nat option" where
  "matchLength [] s = None"
| "matchLength (a # alts) s = (if matchesAt a s then Some (length a) else matchLength alts s)"

text \<open>
  The replacement string of \<^verbatim>\<open>String.prototype.replace\<close> is a template (GetSubstitution of
  ECMA-262): \<^verbatim>\<open>$$\<close> is a dollar sign, \<^verbatim>\<open>$&\<close> the matched text, \<^verbatim>\<open>$`\<close> the part of the
  subject in front of the match and \<^verbatim>\<open>$'\<close> the part behind it. The patterns of this module have no capture
  group, so \<^verbatim>\<open>$1\<close>..\<^verbatim>\<open>$99\<close> and \<^verbatim>\<open>$<\<close> stand for themselves, as does any other character.
\<close>

fun getSubstitution :: "string \<Rightarrow> string \<Rightarrow> string \<Rightarrow> string \<Rightarrow> string" where
  "getSubstitution matched pre post (a # b # cs) =
     (if a = CHR ''$'' then
        (if b = CHR ''$'' then CHR ''$'' # getSubstitution matched pre post cs
         else if b = CHR ''&'' then matched @ getSubstitution matched pre post cs
         else if b = CHR 0x60 then pre @ getSubstitution matched pre post cs
         else if b = CHR 0x27 then post @ getSubstitution matched pre post cs
         else a # getSubstitution matched pre post (b # cs))
      else a # getSubstitution matched pre post (b # cs))"
| "getSubstitution matched pre post cs = cs"

text \<open>
  \<^verbatim>\<open>subject.replace(regex, replacement)\<close> for a global regex: the subject is scanned from
  left to right; at each index the regex is tried; a match is replaced by the expanded
  template and the scan goes on behind it; behind an empty match the scan moves on by one
  code unit, which is copied. \<open>pre\<close> is the part of the subject already scanned.
\<close>

fun replaceFrom :: "string list \<Rightarrow> string \<Rightarrow> string \<Rightarrow> string \<Rightarrow> string" where
  "replaceFrom alts replacement pre [] =
     (case matchLength alts [] of
        None \<Rightarrow> []
      | Some n \<Rightarrow> getSubstitution [] pre [] replacement)"
| "replaceFrom alts replacement pre (c # cs) =
     (case matchLength alts (c # cs) of
        None \<Rightarrow> c # replaceFrom alts replacement (pre @ [c]) cs
      | Some 0 \<Rightarrow>
          getSubstitution [] pre (c # cs) replacement
            @ c # replaceFrom alts replacement (pre @ [c]) cs
      | Some (Suc k) \<Rightarrow>
          getSubstitution (c # take k cs) pre (drop k cs) replacement
            @ replaceFrom alts replacement (pre @ c # take k cs) (drop k cs))"

definition replaceAll :: "string list \<Rightarrow> string \<Rightarrow> string \<Rightarrow> string" where
  "replaceAll alts replacement subject = replaceFrom alts replacement [] subject"

text \<open>
  \<^verbatim>\<open>new RegExp(`\\{\\{${key}\\}\\}`, "gi")\<close> splices the key into the pattern source as it is.
  When the key has none of the characters \<^verbatim>\<open>^ $ \ . * + ? ( ) [ ] { }\<close> the source is a
  disjunction of literal alternatives, separated by the bars of the key; the model computes
  it. On every other key the result (a syntax error, or a regex of the full pattern
  language) is the JavaScript runtime's: it is the parameter \<open>engine\<close>, which gives for
  such a key either the value thrown or the function from replacement and subject to the
  result of \<^verbatim>\<open>subject.replace(regex, replacement)\<close>.
\<close>

datatype thrown = Error string | NonError

type_synonym regex = "string \<Rightarrow> string \<Rightarrow> string"

type_synonym engine = "string \<Rightarrow> thrown + regex"

definition specialCharacter :: "char \<Rightarrow> bool" where
  "specialCharacter c = (c \<in> set ''^$.*+?()[]{}'' \<or> c = CHR 0x5C)"

definition literalKey :: "string \<Rightarrow> bool" where
  "literalKey key = (\<not> list_ex specialCharacter key)"

fun splitAlternatives :: "string \<Rightarrow> string list" where
  "splitAlternatives [] = [[]]"
| "splitAlternatives (c # cs) =
     (if c = CHR ''|'' then [] # splitAlternatives cs
      else (c # hd (splitAlternatives cs)) # tl (splitAlternatives cs))"

definition RegExp :: "engine \<Rightarrow> string \<Rightarrow> thrown + regex" where
  "RegExp engine key =
     (if literalKey key then Inr (replaceAll (splitAlternatives (''{{'' @ key @ ''}}'')))
      else engine key)"

section \<open>Recipients and placeholder substitution\<close>

text \<open>
  Modelled from the spec: the type \<^verbatim>\<open>BatchRecipient\<close> of \<^verbatim>\<open>@/types/batch\<close>, whose declaration is
  not among the sources: a name, an optional title, an optional date and an optional
  mapping of custom fields from string to string. The mapping is the list of its entries
  in the order in which \<^verbatim>\<open>Object.entries\<close> enumerates them.
\<close>

record BatchRecipient =
  name :: string
  title :: "string option"
  date :: "string option"
  customFields :: "(string \<times> string) list option"

text \<open>\<^verbatim>\<open>value || ""\<close> on an optional string.\<close>

definition orEmpty :: "string option \<Rightarrow> string" where
  "orEmpty v = (case v of None \<Rightarrow> [] | Some s \<Rightarrow> s)"

fun replaceCustomFields :: "engine \<Rightarrow> (string \<times> string) list \<Rightarrow> string \<Rightarrow> thrown + string" where
  "replaceCustomFields engine [] result = Inr result"
| "replaceCustomFields engine ((key, val) # entries) result =
     (case RegExp engine key of
        Inl e \<Rightarrow> Inl e
      | Inr regex \<Rightarrow> replaceCustomFields engine entries (regex val result))"

definition replacePlaceholders :: "engine \<Rightarrow> string \<Rightarrow> BatchRecipient \<Rightarrow> thrown + string" where
  "replacePlaceholders engine text recipient =
     (let result = replaceAll [''{{name}}''] (name recipient) text;
          result = replaceAll [''{{title}}''] (orEmpty (title recipient)) result;
          result = replaceAll [''{{date}}''] (orEmpty (date recipient)) result
      in case customFields recipient of
           None \<Rightarrow> Inr result
         | Some entries \<Rightarrow> replaceCustomFields engine entries result)"

section \<open>Validation of the recipient data\<close>

text \<open>Decimal digits of a number, as a template literal prints an index.\<close>

fun showNat :: "nat \<Rightarrow> string" where
  "showNat n =
     (if n < 10 then [''0123456789'' ! n]
      else showNat (n div 10) @ [''0123456789'' ! (n mod 10)])"

declare showNat.simps [simp del]

text \<open>
  What reading a field of a recipient yields: nothing, a string, or (for a key of the custom
  fields that is no entry of the mapping but a member of \<^verbatim>\<open>Object.prototype\<close>) an inherited
  function or object.
\<close>

datatype fieldValue = Undefined | Str string | Inherited

definition objectPrototypeKeys :: "string list" where
  "objectPrototypeKeys =
     [''constructor'', ''__defineGetter__'', ''__defineSetter__'', ''hasOwnProperty'',
      ''__lookupGetter__'', ''__lookupSetter__'', ''isPrototypeOf'', ''propertyIsEnumerable'',
      ''toString'', ''valueOf'', ''__proto__'', ''toLocaleString'']"

definition optionalString :: "string option \<Rightarrow> fieldValue" where
  "optionalString v = (case v of None \<Rightarrow> Undefined | Some s \<Rightarrow> Str s)"

definition customField :: "BatchRecipient \<Rightarrow> string \<Rightarrow> fieldValue" where
  "customField recipient placeholder =
     (case customFields recipient of
        None \<Rightarrow> Undefined
      | Some entries \<Rightarrow>
          (case map_of entries placeholder of
             Some v \<Rightarrow> Str v
           | None \<Rightarrow> if placeholder \<in> set objectPrototypeKeys then Inherited else Undefined))"

definition placeholderValue :: "BatchRecipient \<Rightarrow> string \<Rightarrow> fieldValue" where
  "placeholderValue recipient placeholder =
     (if placeholder = ''name'' then Str (name recipient)
      else if placeholder = ''title'' then optionalString (title recipient)
      else if placeholder = ''date'' then optionalString (date recipient)
      else customField recipient placeholder)"

definition falsy :: "fieldValue \<Rightarrow> bool" where
  "falsy v = (v = Undefined \<or> v = Str [])"

definition missingField :: "nat \<Rightarrow> BatchRecipient \<Rightarrow> string \<Rightarrow> string" where
  "missingField index recipient placeholder =
     ''Recipient '' @ showNat (index + 1) @ '' ('' @ name recipient
       @ '') is missing field: '' @ placeholder"

text \<open>The inner and the outer \<^verbatim>\<open>forEach\<close>, pushing onto the list of errors.\<close>

fun checkPlaceholders :: "nat \<Rightarrow> BatchRecipient \<Rightarrow> string list \<Rightarrow> string list \<Rightarrow> string list" where
  "checkPlaceholders index recipient [] errs = errs"
| "checkPlaceholders index recipient (placeholder # rest) errs =
     checkPlaceholders index recipient rest
       (if falsy (placeholderValue recipient placeholder)
        then errs @ [missingField index recipient placeholder]
        else errs)"

fun checkRecipients :: "nat \<Rightarrow> BatchRecipient list \<Rightarrow> string list \<Rightarrow> string list \<Rightarrow> string list" where
  "checkRecipients index [] requiredPlaceholders errs = errs"
| "checkRecipients index (recipient # rest) requiredPlaceholders errs =
     checkRecipients (index + 1) rest requiredPlaceholders
       (checkPlaceholders index recipient requiredPlaceholders errs)"

record validation =
  valid :: bool
  errors :: "string list"

definition validateRecipientData :: "BatchRecipient list \<Rightarrow> string list \<Rightarrow> validation" where
  "validateRecipientData recipients requiredPlaceholders =
     (let errs = checkRecipients 0 recipients requiredPlaceholders []
      in \<lparr>valid = (length errs = 0), errors = errs\<rparr>)"

section \<open>Loading the recipients file\<close>

text \<open>
  The values \<^verbatim>\<open>JSON.parse\<close> returns. A number is only ever tested for being zero, so an
  integer stands for it. An object is the list of its members, with distinct keys.
\<close>

datatype json =
    JNull
  | JBool bool
  | JNumber int
  | JString string
  | JArray "json list"
  | JObject "(string \<times> json) list"

text \<open>
  What the file reader and \<^verbatim>\<open>JSON.parse\<close> deliver: the read fails, the text is no JSON, or
  the text is a document.
\<close>

datatype fileContent = Unreadable | Malformed | Document json

text \<open>
  The rejections of the loader. The source gives the text of three of them; the text of a
  syntax error of \<^verbatim>\<open>JSON.parse\<close> and of a type error of reading a property of \<^verbatim>\<open>null\<close>
  is the runtime's, behind the prefix of the source.
\<close>

datatype rejection =
    ReadFailed
  | JsonSyntaxError
  | InvalidStructure
  | MissingName nat
  | NullTypeError string

definition rejectionMessage :: "rejection \<Rightarrow> string option" where
  "rejectionMessage r =
     (case r of
        ReadFailed \<Rightarrow> Some ''Failed to read file''
      | InvalidStructure \<Rightarrow>
          Some (''Failed to parse JSON: Invalid JSON structure. Expected { '' @ [CHR 0x22]
                 @ ''recipients'' @ [CHR 0x22] @ '': [...] }'')
      | MissingName index \<Rightarrow>
          Some (''Failed to parse JSON: Recipient at index '' @ showNat index
                 @ '' is missing a valid '' @ [CHR 0x22] @ ''name'' @ [CHR 0x22] @ '' field'')
      | JsonSyntaxError \<Rightarrow> None
      | NullTypeError property \<Rightarrow> None)"

text \<open>
  Reading a property of a parsed value: \<^verbatim>\<open>null\<close> throws, an object yields the member of
  that name if it has one, and every other value yields \<^verbatim>\<open>undefined\<close> (none of the
  property names the loader reads is inherited by a number, string, boolean, array or
  object).
\<close>

definition member :: "json \<Rightarrow> string \<Rightarrow> json option" where
  "member v property = (case v of JObject members \<Rightarrow> map_of members property | _ \<Rightarrow> None)"

definition getProperty :: "json \<Rightarrow> string \<Rightarrow> rejection + json option" where
  "getProperty v property =
     (case v of
        JNull \<Rightarrow> Inl (NullTypeError property)
      | _ \<Rightarrow> Inr (member v property))"

fun truthy :: "json option \<Rightarrow> bool" where
  "truthy None = False"
| "truthy (Some JNull) = False"
| "truthy (Some (JBool b)) = b"
| "truthy (Some (JNumber n)) = (n \<noteq> 0)"
| "truthy (Some (JString s)) = (s \<noteq> [])"
| "truthy (Some (JArray vs)) = True"
| "truthy (Some (JObject members)) = True"

text \<open>\<^verbatim>\<open>value || fallback\<close>.\<close>

definition orElse :: "json option \<Rightarrow> json \<Rightarrow> json" where
  "orElse v fallback = (case v of None \<Rightarrow> fallback | Some x \<Rightarrow> if truthy v then x else fallback)"

text \<open>
  The loader does not check the types of the title, the date and the custom fields: the
  record it returns holds the parsed values.
\<close>

record loadedRecipient =
  loadedName :: string
  loadedTitle :: json
  loadedDate :: json
  loadedCustomFields :: json

definition loadRecipient :: "nat \<Rightarrow> json \<Rightarrow> rejection + loadedRecipient" where
  "loadRecipient index recipient =
     (case getProperty recipient ''name'' of
        Inl e \<Rightarrow> Inl e
      | Inr (Some (JString s)) \<Rightarrow>
          if s = [] then Inl (MissingName index)
          else Inr \<lparr>loadedName = s,
                    loadedTitle = orElse (member recipient ''title'') (JString []),
                    loadedDate = orElse (member recipient ''date'') (JString []),
                    loadedCustomFields = orElse (member recipient ''customFields'') (JObject [])\<rparr>
      | Inr _ \<Rightarrow> Inl (MissingName index))"

text \<open>\<^verbatim>\<open>Array.prototype.map\<close> with the index: the first callback that throws ends it.\<close>

fun loadRecipients :: "nat \<Rightarrow> json list \<Rightarrow> rejection + loadedRecipient list" where
  "loadRecipients index [] = Inr []"
| "loadRecipients index (recipient # rest) =
     (case loadRecipient index recipient of
        Inl e \<Rightarrow> Inl e
      | Inr r \<Rightarrow>
          (case loadRecipients (index + 1) rest of
             Inl e \<Rightarrow> Inl e
           | Inr rs \<Rightarrow> Inr (r # rs)))"

definition parseRecipientsFile :: "fileContent \<Rightarrow> rejection + loadedRecipient list" where
  "parseRecipientsFile file =
     (case file of
        Unreadable \<Rightarrow> Inl ReadFailed
      | Malformed \<Rightarrow> Inl JsonSyntaxError
      | Document data \<Rightarrow>
          (case getProperty data ''recipients'' of
             Inl e \<Rightarrow> Inl e
           | Inr (Some (JArray recipients)) \<Rightarrow> loadRecipients 0 recipients
           | Inr _ \<Rightarrow> Inl InvalidStructure))"

section \<open>The batch generator\<close>

text \<open>
  The elements of a certificate. A field whose name in the source is taken in this theory
  (\<^verbatim>\<open>id\<close>, \<^verbatim>\<open>text\<close>, \<^verbatim>\<open>name\<close>, \<^verbatim>\<open>type\<close>) or is the field of two interfaces (\<^verbatim>\<open>position\<close>,
  \<^verbatim>\<open>width\<close>, \<^verbatim>\<open>height\<close>) carries the name of its interface in front.
\<close>

record Position =
  positionX :: int
  positionY :: int

datatype fontWeight = NormalWeight | Bold

datatype fontStyle = NormalStyle | Italic

datatype textAlign = AlignLeft | AlignCenter | AlignRight

record TextElement =
  textId :: string
  textText :: string
  textPosition :: Position
  fontSize :: int
  fontFamily :: string
  color :: string
  textWeight :: fontWeight
  textStyle :: fontStyle
  textAlignment :: textAlign

datatype imageType = Signature | Logo | Custom

record ImageElement =
  imageId :: string
  src :: string
  imagePosition :: Position
  imageWidth :: int
  imageHeight :: int
  imageKind :: imageType

record CertificateTemplate =
  templateId :: string
  templateName :: string
  backgroundImage :: string
  width :: int
  height :: int

text \<open>
  Modelled from the spec: the type \<^verbatim>\<open>BatchProgress\<close> of \<^verbatim>\<open>@/types/batch\<close>, whose declaration is
  not among the sources: the total, the current index, the optional current name, the
  status and the optional error message.
\<close>

datatype progressStatus = Pending | Processing | Complete | Failed

record BatchProgress =
  total :: nat
  current :: nat
  currentName :: "string option"
  status :: progressStatus
  error :: "string option"

text \<open>
  The canvas is the list of the drawing operations since it was last cleared. An image is
  known by its source. A blob is the PNG encoding of a canvas.
\<close>

datatype drawing =
    DrawImage string int int int int
  | FillText string TextElement

datatype blob = Png "drawing list"

text \<open>
  The surroundings of one run: which image sources load, which canvases
  \<^verbatim>\<open>canvas.toBlob\<close> encodes (it hands \<^verbatim>\<open>null\<close> to its callback otherwise), what
  \<^verbatim>\<open>zip.generateAsync\<close> throws on an archive if it throws, and the clock.
\<close>

record environment =
  imageLoads :: "string \<Rightarrow> bool"
  encodes :: "drawing list \<Rightarrow> bool"
  archiveFailure :: "(string \<times> blob) list \<Rightarrow> thrown option"
  now :: nat

definition loadImage :: "environment \<Rightarrow> string \<Rightarrow> thrown + string" where
  "loadImage env source =
     (if imageLoads env source then Inr source
      else Inl (Error (''Failed to load image: '' @ source)))"

text \<open>
  \<^verbatim>\<open>Promise.all\<close> over the image elements. Every load is started; the promise rejects with
  the rejection that arrives first. The model takes the first in the order of the list.
\<close>

fun loadImages :: "environment \<Rightarrow> ImageElement list \<Rightarrow> thrown + (ImageElement \<times> string) list" where
  "loadImages env [] = Inr []"
| "loadImages env (element # rest) =
     (case loadImage env (src element) of
        Inl e \<Rightarrow> Inl e
      | Inr img \<Rightarrow>
          (case loadImages env rest of
             Inl e \<Rightarrow> Inl e
           | Inr loaded \<Rightarrow> Inr ((element, img) # loaded)))"

fun drawTexts :: "engine \<Rightarrow> TextElement list \<Rightarrow> BatchRecipient \<Rightarrow> drawing list \<Rightarrow> thrown + drawing list" where
  "drawTexts engine [] recipient canvas = Inr canvas"
| "drawTexts engine (element # rest) recipient canvas =
     (case replacePlaceholders engine (textText element) recipient of
        Inl e \<Rightarrow> Inl e
      | Inr text \<Rightarrow> drawTexts engine rest recipient (canvas @ [FillText text element]))"

definition renderCertificate ::
  "engine \<Rightarrow> CertificateTemplate \<Rightarrow> TextElement list \<Rightarrow> ImageElement list \<Rightarrow> BatchRecipient
     \<Rightarrow> string \<times> (ImageElement \<times> string) list \<Rightarrow> thrown + drawing list" where
  "renderCertificate engine template textElements imageElements recipient loadedImages =
     (let canvas = [];
          canvas = canvas @ [DrawImage (fst loadedImages) 0 0 (width template) (height template)];
          canvas = canvas @ map (\<lambda>(element, img).
                      DrawImage img (positionX (imagePosition element)) (positionY (imagePosition element))
                        (imageWidth element) (imageHeight element)) (snd loadedImages)
      in drawTexts engine textElements recipient canvas)"

definition canvasToBlob :: "environment \<Rightarrow> drawing list \<Rightarrow> thrown + blob" where
  "canvasToBlob env canvas =
     (if encodes env canvas then Inr (Png canvas)
      else Inl (Error ''Failed to convert canvas to blob''))"

text \<open>
  \<^verbatim>\<open>/[^a-z0-9]/gi\<close>, \<^verbatim>\<open>/_+/g\<close> and \<^verbatim>\<open>/^_|_$/g\<close>, each as the function its \<^verbatim>\<open>replace\<close>
  computes, and \<^verbatim>\<open>toLowerCase\<close> on U+0000..U+00FF.
\<close>

definition alphanumeric :: "char \<Rightarrow> bool" where
  "alphanumeric c =
     (let n = canonicalize c in (65 \<le> n \<and> n \<le> 90) \<or> (48 \<le> n \<and> n \<le> 57))"

fun collapseUnderscores :: "string \<Rightarrow> string" where
  "collapseUnderscores (a # b # cs) =
     (if a = CHR ''_'' \<and> b = CHR ''_'' then collapseUnderscores (b # cs)
      else a # collapseUnderscores (b # cs))"
| "collapseUnderscores cs = cs"

fun dropLeadingUnderscore :: "string \<Rightarrow> string" where
  "dropLeadingUnderscore [] = []"
| "dropLeadingUnderscore (c # cs) = (if c = CHR ''_'' then cs else c # cs)"

definition dropTrailingUnderscore :: "string \<Rightarrow> string" where
  "dropTrailingUnderscore s = rev (dropLeadingUnderscore (rev s))"

definition toLowerCase :: "char \<Rightarrow> char" where
  "toLowerCase c =
     (let n = of_char c :: nat in
      if (65 \<le> n \<and> n \<le> 90) \<or> (192 \<le> n \<and> n \<le> 222 \<and> n \<noteq> 215) then char_of (n + 32)
      else c)"

definition sanitizeFilename :: "string \<Rightarrow> string" where
  "sanitizeFilename s =
     map toLowerCase
       (dropTrailingUnderscore
         (dropLeadingUnderscore
           (collapseUnderscores
             (map (\<lambda>c. if alphanumeric c then c else CHR ''_'') s))))"

definition certificateFilename :: "BatchRecipient \<Rightarrow> string" where
  "certificateFilename recipient = ''certificate_'' @ sanitizeFilename (name recipient) @ ''.png''"

text \<open>
  The state of a run: the progress object, the archive under construction (\<^verbatim>\<open>zip.file\<close>
  stores a blob under a name, or replaces the blob stored under it) and the values that
  \<^verbatim>\<open>onProgress\<close> has received so far, each as it was at the call.
\<close>

record batchState =
  progress :: BatchProgress
  zip :: "(string \<times> blob) list"
  emitted :: "BatchProgress list"

text \<open>\<^verbatim>\<open>if (onProgress) onProgress(...)\<close>: the callback is optional.\<close>

definition emit :: "bool \<Rightarrow> batchState \<Rightarrow> batchState" where
  "emit onProgress s = (if onProgress then s\<lparr>emitted := emitted s @ [progress s]\<rparr> else s)"

fun generateEach ::
  "engine \<Rightarrow> environment \<Rightarrow> bool \<Rightarrow> CertificateTemplate \<Rightarrow> TextElement list \<Rightarrow> ImageElement list
     \<Rightarrow> string \<times> (ImageElement \<times> string) list \<Rightarrow> nat \<Rightarrow> BatchRecipient list \<Rightarrow> batchState
     \<Rightarrow> thrown option \<times> batchState" where
  "generateEach engine env onProgress template textElements imageElements loadedImages i [] s =
     (None, s)"
| "generateEach engine env onProgress template textElements imageElements loadedImages i
     (recipient # rest) s =
     (let s = s\<lparr>progress := (progress s)\<lparr>current := i, currentName := Some (name recipient)\<rparr>\<rparr>;
          s = emit onProgress s
      in case renderCertificate engine template textElements imageElements recipient loadedImages of
           Inl e \<Rightarrow> (Some e, s)
         | Inr canvas \<Rightarrow>
             (case canvasToBlob env canvas of
                Inl e \<Rightarrow> (Some e, s)
              | Inr png \<Rightarrow>
                  generateEach engine env onProgress template textElements imageElements
                    loadedImages (i + 1) rest
                    (s\<lparr>zip := AList.update (certificateFilename recipient) png (zip s)\<rparr>)))"

text \<open>
  What the caller sees of a run: the value thrown if the promise rejects, the calls of
  \<^verbatim>\<open>onProgress\<close>, and the file handed to the browser for download (its name and its
  entries) if there is one.
\<close>

record batchRun =
  rejected :: "thrown option"
  events :: "BatchProgress list"
  download :: "(string \<times> (string \<times> blob) list) option"

text \<open>The body of the \<^verbatim>\<open>try\<close> block.\<close>

definition tryGenerate ::
  "engine \<Rightarrow> environment \<Rightarrow> bool \<Rightarrow> BatchRecipient list \<Rightarrow> CertificateTemplate \<Rightarrow> TextElement list
     \<Rightarrow> ImageElement list \<Rightarrow> batchState
     \<Rightarrow> thrown option \<times> batchState \<times> (string \<times> (string \<times> blob) list) option" where
  "tryGenerate engine env onProgress recipients template textElements imageElements s =
     (case loadImage env (backgroundImage template) of
        Inl e \<Rightarrow> (Some e, s, None)
      | Inr templateImg \<Rightarrow>
          (case loadImages env imageElements of
             Inl e \<Rightarrow> (Some e, s, None)
           | Inr imageElementsLoaded \<Rightarrow>
               (case generateEach engine env onProgress template textElements imageElements
                       (templateImg, imageElementsLoaded) 0 recipients (s\<lparr>zip := []\<rparr>) of
                  (Some e, s) \<Rightarrow> (Some e, s, None)
                | (None, s) \<Rightarrow>
                    (let s = s\<lparr>progress := (progress s)\<lparr>current := length recipients, status := Complete\<rparr>\<rparr>;
                         s = emit onProgress s
                     in case archiveFailure env (zip s) of
                          Some e \<Rightarrow> (Some e, s, None)
                        | None \<Rightarrow>
                            (None, s,
                             Some (''certificates_batch_'' @ showNat (now env) @ ''.zip'', zip s))))))"

definition errorMessage :: "thrown \<Rightarrow> string" where
  "errorMessage e = (case e of Error message \<Rightarrow> message | NonError \<Rightarrow> ''Unknown error occurred'')"

definition generateBatch ::
  "engine \<Rightarrow> environment \<Rightarrow> BatchRecipient list \<Rightarrow> CertificateTemplate \<Rightarrow> TextElement list
     \<Rightarrow> ImageElement list \<Rightarrow> bool \<Rightarrow> batchRun" where
  "generateBatch engine env recipients template textElements imageElements onProgress =
     (let s = \<lparr>progress = \<lparr>total = length recipients, current = 0, currentName = None,
                             status = Processing, error = None\<rparr>,
                zip = [], emitted = []\<rparr>;
          s = emit onProgress s
      in case tryGenerate engine env onProgress recipients template textElements imageElements s of
           (None, s, file) \<Rightarrow> \<lparr>rejected = None, events = emitted s, download = file\<rparr>
         | (Some e, s, file) \<Rightarrow>
             (let s = s\<lparr>progress := (progress s)\<lparr>status := Failed, error := Some (errorMessage e)\<rparr>\<rparr>;
                  s = emit onProgress s
              in \<lparr>rejected = Some e, events = emitted s, download = None\<rparr>))"

section \<open>Notions for the properties\<close>

text \<open>
  The following definitions are not in the source; the properties are stated with them.
  \<open>hasOpen\<close>: the string has two opening braces in a row. \<open>literalTemplate\<close>: the string,
  as a replacement template, stands for itself (none of \<^verbatim>\<open>$$\<close>, \<^verbatim>\<open>$&\<close>, \<^verbatim>\<open>$`\<close>, \<^verbatim>\<open>$'\<close>
  occurs in it). \<open>sameKey\<close>: two keys are equal up to case. \<open>inert\<close>: a field value has no
  opening brace and is a literal template. \<open>plainKey\<close>: a key has no character of the
  pattern syntax. A text is given by its segments: literals and tokens \<^verbatim>\<open>{{key}}\<close>.
  \<open>pass\<close> is what one replacement (one key, one value) does to a segment, and
  \<open>substituteStandard\<close> is the substitution of the three standard keys in the words of the
  specification.
\<close>

fun hasOpen :: "string \<Rightarrow> bool" where
  "hasOpen (a # b # cs) = ((a = CHR ''{'' \<and> b = CHR ''{'') \<or> hasOpen (b # cs))"
| "hasOpen cs = False"

fun literalTemplate :: "string \<Rightarrow> bool" where
  "literalTemplate (a # b # cs) =
     ((a \<noteq> CHR ''$'' \<or> b \<notin> set [CHR ''$'', CHR ''&'', CHR 0x60, CHR 0x27]) \<and> literalTemplate (b # cs))"
| "literalTemplate cs = True"

definition sameKey :: "string \<Rightarrow> string \<Rightarrow> bool" where
  "sameKey a b = (map canonicalize a = map canonicalize b)"

definition braceFree :: "string \<Rightarrow> bool" where
  "braceFree k = (CHR ''{'' \<notin> set k \<and> CHR ''}'' \<notin> set k)"

datatype segment = Literal string | Token string

fun textOf :: "segment list \<Rightarrow> string" where
  "textOf [] = []"
| "textOf (Literal l # segs) = l @ textOf segs"
| "textOf (Token k # segs) = ''{{'' @ k @ ''}}'' @ textOf segs"

fun properSegment :: "segment \<Rightarrow> bool" where
  "properSegment (Literal l) = (CHR ''{'' \<notin> set l)"
| "properSegment (Token k) = braceFree k"

fun pass :: "string \<Rightarrow> string \<Rightarrow> segment \<Rightarrow> segment" where
  "pass key v (Literal l) = Literal l"
| "pass key v (Token k) = (if sameKey key k then Literal v else Token k)"

definition inert :: "string \<Rightarrow> bool" where
  "inert v = (CHR ''{'' \<notin> set v \<and> literalTemplate v)"

definition fieldKeys :: "BatchRecipient \<Rightarrow> string list" where
  "fieldKeys recipient = (case customFields recipient of None \<Rightarrow> [] | Some entries \<Rightarrow> map fst entries)"

definition standardKey :: "string \<Rightarrow> bool" where
  "standardKey k = (sameKey ''name'' k \<or> sameKey ''title'' k \<or> sameKey ''date'' k)"

definition standardValue :: "BatchRecipient \<Rightarrow> string \<Rightarrow> string" where
  "standardValue recipient k =
     (if sameKey ''name'' k then name recipient
      else if sameKey ''title'' k then orEmpty (title recipient)
      else orEmpty (date recipient))"

fun substituteStandard :: "BatchRecipient \<Rightarrow> segment \<Rightarrow> segment" where
  "substituteStandard recipient (Literal l) = Literal l"
| "substituteStandard recipient (Token k) =
     (if standardKey k then Literal (standardValue recipient k) else Token k)"

fun standardOnly :: "segment \<Rightarrow> bool" where
  "standardOnly (Literal l) = True"
| "standardOnly (Token k) = standardKey k"

definition plainKey :: "string \<Rightarrow> bool" where
  "plainKey key = (literalKey key \<and> CHR ''|'' \<notin> set key)"

text \<open>
  The substitution in the words of the specification, for all keys: a token is resolved to
  the name, the title or the date when its key is one of the three, up to case, else to the
  value of the first custom field whose key is its key, up to case, else it is left as it
  is. \<open>passAll\<close> is what the replacements of the custom fields, one after the other, do to a
  segment.
\<close>

fun lookupKey :: "(string \<times> string) list \<Rightarrow> string \<Rightarrow> string option" where
  "lookupKey [] k = None"
| "lookupKey ((key, v) # entries) k = (if sameKey key k then Some v else lookupKey entries k)"

definition resolveKey :: "BatchRecipient \<Rightarrow> string \<Rightarrow> string option" where
  "resolveKey recipient k =
     (if sameKey ''name'' k then Some (name recipient)
      else if sameKey ''title'' k then Some (orEmpty (title recipient))
      else if sameKey ''date'' k then Some (orEmpty (date recipient))
      else case customFields recipient of
             None \<Rightarrow> None
           | Some entries \<Rightarrow> lookupKey entries k)"

fun substituteSegment :: "BatchRecipient \<Rightarrow> segment \<Rightarrow> segment" where
  "substituteSegment recipient (Literal l) = Literal l"
| "substituteSegment recipient (Token k) =
     (case resolveKey recipient k of None \<Rightarrow> Token k | Some v \<Rightarrow> Literal v)"

definition fieldValues :: "BatchRecipient \<Rightarrow> string list" where
  "fieldValues recipient = (case customFields recipient of None \<Rightarrow> [] | Some entries \<Rightarrow> map snd entries)"

fun passAll :: "(string \<times> string) list \<Rightarrow> segment \<Rightarrow> segment" where
  "passAll [] s = s"
| "passAll ((key, v) # entries) s = passAll entries (pass key v s)"

text \<open>
  \<open>replacements\<close> is the sequence of the replacements in the words of the specification:
  the name, then the title, then the date, then the custom fields in the order of the
  mapping, each with the value it puts for its token.
\<close>

definition replacements :: "BatchRecipient \<Rightarrow> (string \<times> string) list" where
  "replacements recipient =
     [(''name'', name recipient), (''title'', orEmpty (title recipient)),
      (''date'', orEmpty (date recipient))]
     @ (case customFields recipient of None \<Rightarrow> [] | Some entries \<Rightarrow> entries)"

text \<open>
  For the validation, in the words of the specification: a recipient \<open>lacks\<close> a required
  key when the field is absent or is the empty string, the field being the name, the title
  or the date for these three keys and the entry of the custom fields for any other key.
  \<open>inheritedMember\<close> says that a key, not one of the three, is no entry of the custom fields
  of the recipient but the name of a member that every object inherits.
\<close>

definition lacks :: "BatchRecipient \<Rightarrow> string \<Rightarrow> bool" where
  "lacks recipient key =
     (if key = ''name'' then name recipient = []
      else if key = ''title'' then title recipient = None \<or> title recipient = Some []
      else if key = ''date'' then date recipient = None \<or> date recipient = Some []
      else (case customFields recipient of
              None \<Rightarrow> True
            | Some entries \<Rightarrow> map_of entries key = None \<or> map_of entries key = Some []))"

definition inheritedMember :: "BatchRecipient \<Rightarrow> string \<Rightarrow> bool" where
  "inheritedMember recipient key =
     (key \<notin> {''name'', ''title'', ''date''} \<and> key \<in> set objectPrototypeKeys
      \<and> (case customFields recipient of
            None \<Rightarrow> False
          | Some entries \<Rightarrow> map_of entries key = None))"

text \<open>
  For the loader: \<open>hasName\<close> says that a parsed record has a member \<^verbatim>\<open>name\<close> that is a
  non-empty string, and \<open>defaulted\<close> is the recipient the specification describes for such
  a record: its name, and for the title, the date and the custom fields the parsed value,
  or the empty string (the empty mapping) when the value is missing or falsy.
\<close>

definition hasName :: "json \<Rightarrow> bool" where
  "hasName v = (case member v ''name'' of Some (JString s) \<Rightarrow> s \<noteq> [] | _ \<Rightarrow> False)"

definition defaulted :: "json \<Rightarrow> loadedRecipient" where
  "defaulted v =
     \<lparr>loadedName = (case member v ''name'' of Some (JString s) \<Rightarrow> s | _ \<Rightarrow> []),
      loadedTitle = orElse (member v ''title'') (JString []),
      loadedDate = orElse (member v ''date'') (JString []),
      loadedCustomFields = orElse (member v ''customFields'') (JObject [])\<rparr>"

text \<open>
  For the batch generator: \<open>framed\<close> says that rendering and encoding the certificate of a
  recipient succeed, and \<open>frameOf\<close> is the blob they give; \<open>reached\<close> counts the recipients
  whose processing begins (all of them, or those up to the first that is not framed);
  \<open>loadedAll\<close> is the list of the loaded images when all load, which \<open>imagesLoad\<close> says;
  \<open>addName\<close> is what \<^verbatim>\<open>zip.file\<close> does to the list of the names of the archive; and the four
  events are the values the callback receives: at the start, before the certificate of the
  recipient at an index, at completion, and in the \<^verbatim>\<open>catch\<close> block (the progress object as
  it stands, with the status and the message of the failure).
\<close>

definition framed ::
  "engine \<Rightarrow> environment \<Rightarrow> CertificateTemplate \<Rightarrow> TextElement list \<Rightarrow> ImageElement list
     \<Rightarrow> string \<times> (ImageElement \<times> string) list \<Rightarrow> BatchRecipient \<Rightarrow> bool" where
  "framed engine env template textElements imageElements loadedImages recipient =
     (case renderCertificate engine template textElements imageElements recipient loadedImages of
        Inl e \<Rightarrow> False
      | Inr canvas \<Rightarrow> encodes env canvas)"

definition frameOf ::
  "engine \<Rightarrow> CertificateTemplate \<Rightarrow> TextElement list \<Rightarrow> ImageElement list
     \<Rightarrow> string \<times> (ImageElement \<times> string) list \<Rightarrow> BatchRecipient \<Rightarrow> blob" where
  "frameOf engine template textElements imageElements loadedImages recipient =
     (case renderCertificate engine template textElements imageElements recipient loadedImages of
        Inl e \<Rightarrow> Png []
      | Inr canvas \<Rightarrow> Png canvas)"

fun reached :: "(BatchRecipient \<Rightarrow> bool) \<Rightarrow> BatchRecipient list \<Rightarrow> nat" where
  "reached ok [] = 0"
| "reached ok (r # rs) = (if ok r then Suc (reached ok rs) else 1)"

definition loadedAll :: "ImageElement list \<Rightarrow> (ImageElement \<times> string) list" where
  "loadedAll imageElements = map (\<lambda>element. (element, src element)) imageElements"

definition imagesLoad :: "environment \<Rightarrow> CertificateTemplate \<Rightarrow> ImageElement list \<Rightarrow> bool" where
  "imagesLoad env template imageElements =
     (imageLoads env (backgroundImage template)
      \<and> list_all (\<lambda>element. imageLoads env (src element)) imageElements)"

definition archiveName :: "environment \<Rightarrow> string" where
  "archiveName env = ''certificates_batch_'' @ showNat (now env) @ ''.zip''"

definition addName :: "string list \<Rightarrow> string \<Rightarrow> string list" where
  "addName names n = (if n \<in> set names then names else names @ [n])"

definition initialEvent :: "BatchRecipient list \<Rightarrow> BatchProgress" where
  "initialEvent rs =
     \<lparr>total = length rs, current = 0, currentName = None, status = Processing, error = None\<rparr>"

definition recipientEvent :: "BatchRecipient list \<Rightarrow> nat \<Rightarrow> BatchProgress" where
  "recipientEvent rs j =
     \<lparr>total = length rs, current = j, currentName = Some (name (rs ! j)), status = Processing,
      error = None\<rparr>"

definition completeEvent :: "BatchRecipient list \<Rightarrow> BatchProgress" where
  "completeEvent rs =
     \<lparr>total = length rs, current = length rs,
      currentName = (if rs = [] then None else Some (name (last rs))),
      status = Complete, error = None\<rparr>"

definition failedEvent :: "BatchProgress \<Rightarrow> thrown \<Rightarrow> BatchProgress" where
  "failedEvent p e = p\<lparr>status := Failed, error := Some (errorMessage e)\<rparr>"

section \<open>Lemmas on matching and replacing\<close>

lemma canonicalize_open [simp]: "canonicalize c = canonicalize (CHR ''{'') \<longleftrightarrow> c = CHR ''{''"
proof
  assume h: "canonicalize c = canonicalize (CHR ''{'')"
  have "(of_char c :: nat) = of_char (CHR ''{'')"
    using h by (simp add: canonicalize_def Let_def split: if_splits)
  then show "c = CHR ''{''" by (simp only: of_char_eq_iff)
next
  assume "c = CHR ''{''" then show "canonicalize c = canonicalize (CHR ''{'')" by simp
qed

lemma canonicalize_close [simp]: "canonicalize c = canonicalize (CHR ''}'') \<longleftrightarrow> c = CHR ''}''"
proof
  assume h: "canonicalize c = canonicalize (CHR ''}'')"
  have "(of_char c :: nat) = of_char (CHR ''}'')"
    using h by (simp add: canonicalize_def Let_def split: if_splits)
  then show "c = CHR ''}''" by (simp only: of_char_eq_iff)
next
  assume "c = CHR ''}''" then show "canonicalize c = canonicalize (CHR ''}'')" by simp
qed

lemma canonicalize_open' [simp]: "canonicalize (CHR ''{'') = canonicalize c \<longleftrightarrow> c = CHR ''{''"
  using canonicalize_open [of c] by (auto simp del: canonicalize_open)

lemma canonicalize_close' [simp]: "canonicalize (CHR ''}'') = canonicalize c \<longleftrightarrow> c = CHR ''}''"
  using canonicalize_close [of c] by (auto simp del: canonicalize_close)

lemma getSubstitution_literal:
  "literalTemplate v \<Longrightarrow> getSubstitution m pre post v = v"
  by (induction m pre post v rule: getSubstitution.induct) auto

lemma hasOpen_tail: "\<not> hasOpen (c # cs) \<Longrightarrow> \<not> hasOpen cs"
  by (cases cs) auto

lemma noOpen_no_match: "\<not> hasOpen s \<Longrightarrow> \<not> matchesAt (CHR ''{'' # CHR ''{'' # w) s"
  by (cases s rule: hasOpen.cases) auto

lemma noOpen_replaceFrom:
  "\<not> hasOpen s \<Longrightarrow> replaceFrom [CHR ''{'' # CHR ''{'' # w] r pre s = s"
proof (induction s arbitrary: pre)
  case Nil
  then show ?case by simp
next
  case (Cons c cs)
  have "\<not> matchesAt (CHR ''{'' # CHR ''{'' # w) (c # cs)"
    using Cons.prems by (rule noOpen_no_match)
  then have ml: "matchLength [CHR ''{'' # CHR ''{'' # w] (c # cs) = None"
    by (simp del: matchesAt.simps)
  have ih: "replaceFrom [CHR ''{'' # CHR ''{'' # w] r (pre @ [c]) cs = cs"
    using Cons.IH Cons.prems hasOpen_tail by blast
  show ?case by (simp only: replaceFrom.simps ml option.case ih)
qed

lemma splitAlternatives_plain: "CHR ''|'' \<notin> set s \<Longrightarrow> splitAlternatives s = [s]"
  by (induction s) auto

lemma RegExp_plain:
  "plainKey key \<Longrightarrow> RegExp engine key = Inr (replaceAll [''{{'' @ key @ ''}}''])"
  by (simp add: RegExp_def plainKey_def splitAlternatives_plain)

lemma replaceCustomFields_noOpen:
  "list_all plainKey (map fst entries) \<Longrightarrow> \<not> hasOpen s \<Longrightarrow> replaceCustomFields engine entries s = Inr s"
proof (induction entries)
  case Nil
  then show ?case by simp
next
  case (Cons e es)
  obtain k v where e: "e = (k, v)" by (cases e)
  have "replaceAll [''{{'' @ k @ ''}}''] v s = s"
    using Cons.prems(2) noOpen_replaceFrom [of s "k @ ''}}''" v "[]"] by (simp add: replaceAll_def)
  then show ?case using Cons e by (simp add: RegExp_plain)
qed

lemma matchLength_single:
  "matchLength [p] s = (if matchesAt p s then Some (length p) else None)"
  by simp

lemma replaceFrom_literal:
  "CHR ''{'' \<notin> set l \<Longrightarrow>
   replaceFrom [CHR ''{'' # w] r pre (l @ x) = l @ replaceFrom [CHR ''{'' # w] r (pre @ l) x"
proof (induction l arbitrary: pre)
  case Nil
  then show ?case by simp
next
  case (Cons c l)
  have ml: "matchLength [CHR ''{'' # w] (c # l @ x) = None"
    using Cons.prems by auto
  have ih: "replaceFrom [CHR ''{'' # w] r (pre @ [c]) (l @ x) = l @ replaceFrom [CHR ''{'' # w] r ((pre @ [c]) @ l) x"
    using Cons.IH Cons.prems by simp
  show ?case by (simp only: append_Cons replaceFrom.simps ml option.case ih) simp
qed

lemma matchesAt_key:
  "braceFree key \<Longrightarrow> braceFree k \<Longrightarrow>
   matchesAt (key @ ''}}'') (k @ ''}}'' @ x) \<longleftrightarrow> sameKey key k"
proof (induction key arbitrary: k)
  case Nil
  then show ?case by (cases k) (auto simp: sameKey_def braceFree_def)
next
  case (Cons a key)
  show ?case
  proof (cases k)
    case Nil
    then show ?thesis using Cons.prems by (auto simp: sameKey_def braceFree_def)
  next
    case (Cons c k')
    have "matchesAt (key @ ''}}'') (k' @ ''}}'' @ x) \<longleftrightarrow> sameKey key k'"
      using Cons.IH [of k'] Cons.prems Cons by (simp add: braceFree_def)
    then show ?thesis using Cons by (simp add: sameKey_def)
  qed
qed

lemma matchesAt_token:
  "braceFree key \<Longrightarrow> braceFree k \<Longrightarrow>
   matchesAt (''{{'' @ key @ ''}}'') (''{{'' @ k @ ''}}'' @ x) \<longleftrightarrow> sameKey key k"
  using matchesAt_key [of key k x] by simp

lemma sameKey_length: "sameKey a b \<Longrightarrow> length a = length b"
  unfolding sameKey_def by (rule map_eq_imp_length_eq)

lemma replaceFrom_token_hit:
  assumes "braceFree key" "braceFree k" "sameKey key k"
  shows "replaceFrom [''{{'' @ key @ ''}}''] r pre (''{{'' @ k @ ''}}'' @ x) =
         getSubstitution (''{{'' @ k @ ''}}'') pre x r
           @ replaceFrom [''{{'' @ key @ ''}}''] r (pre @ ''{{'' @ k @ ''}}'') x"
proof -
  have len: "length key = length k" using assms(3) by (rule sameKey_length)
  have ml: "matchLength [''{{'' @ key @ ''}}''] (CHR ''{'' # (CHR ''{'' # k @ ''}}'') @ x)
              = Some (Suc (length (CHR ''{'' # k @ ''}}'')))"
    using matchesAt_token [OF assms(1,2), of x] assms(3) len
    by (simp only: matchLength_single) simp
  show ?thesis
    using ml by (simp del: matchLength.simps matchesAt.simps)
qed

lemma replaceFrom_token_miss:
  assumes "braceFree key" "braceFree k" "\<not> sameKey key k"
  shows "replaceFrom [''{{'' @ key @ ''}}''] r pre (''{{'' @ k @ ''}}'' @ x) =
         ''{{'' @ k @ ''}}'' @ replaceFrom [''{{'' @ key @ ''}}''] r (pre @ ''{{'' @ k @ ''}}'') x"
proof -
  let ?P = "''{{'' @ key @ ''}}''"
  have m0: "matchLength [?P] (CHR ''{'' # CHR ''{'' # (k @ ''}}'') @ x) = None"
    using matchesAt_token [OF assms(1,2), of x] assms(3)
    by (simp only: matchLength_single) simp
  have m1: "matchLength [?P] (CHR ''{'' # (k @ ''}}'') @ x) = None"
    using assms(2) by (cases k) (auto simp: braceFree_def)
  have lit: "CHR ''{'' \<notin> set (k @ ''}}'')"
    using assms(2) by (simp add: braceFree_def)
  have rest: "replaceFrom [?P] r ((pre @ ''{{'')) ((k @ ''}}'') @ x)
                = (k @ ''}}'') @ replaceFrom [?P] r ((pre @ ''{{'') @ (k @ ''}}'')) x"
    using replaceFrom_literal [OF lit, of "CHR ''{'' # key @ ''}}''" r "pre @ ''{{''" x] by simp
  have "replaceFrom [?P] r pre (CHR ''{'' # CHR ''{'' # (k @ ''}}'') @ x)
          = CHR ''{'' # CHR ''{'' # replaceFrom [?P] r (pre @ ''{{'') ((k @ ''}}'') @ x)"
    by (simp only: replaceFrom.simps m0 m1 option.case) simp
  then show ?thesis using rest by simp
qed

lemma replaceFrom_pass:
  assumes "braceFree key" "literalTemplate v" "list_all properSegment segs"
  shows "replaceFrom [''{{'' @ key @ ''}}''] v pre (textOf segs) = textOf (map (pass key v) segs)"
  using assms(3)
proof (induction segs arbitrary: pre)
  case Nil
  then show ?case by simp
next
  case (Cons s segs)
  show ?case
  proof (cases s)
    case (Literal l)
    then show ?thesis
      using Cons replaceFrom_literal [of l "CHR ''{'' # key @ ''}}''" v pre "textOf segs"] by simp
  next
    case (Token k)
    then have k: "braceFree k" using Cons.prems by simp
    show ?thesis
    proof (cases "sameKey key k")
      case True
      then show ?thesis
        using Token Cons replaceFrom_token_hit [OF assms(1) k True, of v pre "textOf segs"]
          getSubstitution_literal [OF assms(2)]
        by simp
    next
      case False
      then show ?thesis
        using Token Cons replaceFrom_token_miss [OF assms(1) k False, of v pre "textOf segs"]
        by simp
    qed
  qed
qed

lemma noBrace_noOpen: "CHR ''{'' \<notin> set s \<Longrightarrow> \<not> hasOpen s"
  by (induction s rule: hasOpen.induct) auto

lemma replaceAll_pass:
  "braceFree key \<Longrightarrow> literalTemplate v \<Longrightarrow> list_all properSegment segs \<Longrightarrow>
   replaceAll [''{{'' @ key @ ''}}''] v (textOf segs) = textOf (map (pass key v) segs)"
  unfolding replaceAll_def by (rule replaceFrom_pass)

lemma proper_pass1:
  "CHR ''{'' \<notin> set v \<Longrightarrow> properSegment s \<Longrightarrow> properSegment (pass key v s)"
  by (cases s) auto

lemma proper_pass:
  "CHR ''{'' \<notin> set v \<Longrightarrow> list_all properSegment segs \<Longrightarrow> list_all properSegment (map (pass key v) segs)"
  by (induction segs) (simp_all add: proper_pass1)

lemma standard_passes:
  "standardOnly s \<Longrightarrow>
   pass ''date'' (orEmpty (date R)) (pass ''title'' (orEmpty (title R)) (pass ''name'' (name R) s))
     = substituteStandard R s"
  by (cases s) (auto simp: standardKey_def standardValue_def)

lemma textOf_literals:
  "list_all properSegment segs \<Longrightarrow> list_all standardOnly segs \<Longrightarrow>
   inert (name R) \<Longrightarrow> inert (orEmpty (title R)) \<Longrightarrow> inert (orEmpty (date R)) \<Longrightarrow>
   CHR ''{'' \<notin> set (textOf (map (substituteStandard R) segs))"
proof (induction segs)
  case Nil
  then show ?case by simp
next
  case (Cons s segs)
  then show ?case
    by (cases s) (auto simp: inert_def standardValue_def)
qed

lemma braceFree_standard: "braceFree ''name''" "braceFree ''title''" "braceFree ''date''"
  by (simp_all add: braceFree_def)

lemma plainKey_braceFree: "plainKey key \<Longrightarrow> braceFree key"
  by (auto simp: plainKey_def literalKey_def braceFree_def list_ex_iff specialCharacter_def)

lemma braceFree_canon:
  "braceFree k \<longleftrightarrow>
     canonicalize (CHR ''{'') \<notin> set (map canonicalize k) \<and> canonicalize (CHR ''}'') \<notin> set (map canonicalize k)"
  by (auto simp: braceFree_def)

lemma sameKey_braceFree: "sameKey key k \<Longrightarrow> braceFree key \<Longrightarrow> braceFree k"
  by (simp add: braceFree_canon sameKey_def del: set_map)

lemma replaceAll_token_miss:
  assumes "braceFree key" "braceFree k" "\<not> sameKey key k"
  shows "replaceAll [''{{'' @ key @ ''}}''] v (''{{'' @ k @ ''}}'') = ''{{'' @ k @ ''}}''"
  using replaceFrom_token_miss [OF assms, of v "[]" "[]"] by (simp add: replaceAll_def)

lemma replaceAll_token_hit:
  assumes "braceFree key" "sameKey key k" "literalTemplate v"
  shows "replaceAll [''{{'' @ key @ ''}}''] v (''{{'' @ k @ ''}}'') = v"
  using replaceFrom_token_hit [OF assms(1) sameKey_braceFree [OF assms(2,1)] assms(2), of v "[]" "[]"]
    getSubstitution_literal [OF assms(3)]
  by (simp add: replaceAll_def)

lemma replaceAll_noBrace:
  "CHR ''{'' \<notin> set s \<Longrightarrow> replaceAll [''{{'' @ key @ ''}}''] v s = s"
  using noOpen_replaceFrom [OF noBrace_noOpen, of s "key @ ''}}''" v "[]"] by (simp add: replaceAll_def)

lemma replaceCustomFields_token_miss:
  "braceFree k \<Longrightarrow> list_all plainKey (map fst entries) \<Longrightarrow>
   \<not> list_ex (\<lambda>key. sameKey key k) (map fst entries) \<Longrightarrow>
   replaceCustomFields engine entries (''{{'' @ k @ ''}}'') = Inr (''{{'' @ k @ ''}}'')"
proof (induction entries)
  case Nil
  then show ?case by simp
next
  case (Cons e es)
  obtain key v where e: "e = (key, v)" by (cases e)
  have "replaceAll [''{{'' @ key @ ''}}''] v (''{{'' @ k @ ''}}'') = ''{{'' @ k @ ''}}''"
  proof (rule replaceAll_token_miss)
    show "braceFree key" using Cons.prems(2) e by (simp add: plainKey_braceFree)
    show "braceFree k" by (rule Cons.prems(1))
    show "\<not> sameKey key k" using Cons.prems(3) e by simp
  qed
  then show ?case using Cons e by (simp add: RegExp_plain)
qed

lemma standard_distinct:
  "sameKey ''title'' k \<Longrightarrow> \<not> sameKey ''name'' k"
  "sameKey ''date'' k \<Longrightarrow> \<not> sameKey ''name'' k"
  "sameKey ''date'' k \<Longrightarrow> \<not> sameKey ''title'' k"
  by (auto simp: sameKey_def canonicalize_def)

lemma after_standard:
  assumes "CHR ''{'' \<notin> set v" "list_all plainKey (fieldKeys R)"
  shows "(case customFields R of None \<Rightarrow> Inr v | Some entries \<Rightarrow> replaceCustomFields engine entries v)
           = Inr v"
proof (cases "customFields R")
  case None
  then show ?thesis by simp
next
  case (Some entries)
  have "replaceCustomFields engine entries v = Inr v"
    using assms Some
    by (intro replaceCustomFields_noOpen noBrace_noOpen) (simp_all add: fieldKeys_def)
  then show ?thesis using Some by simp
qed

lemma name_token:
  assumes "sameKey ''name'' k" "inert (name R)" "list_all plainKey (fieldKeys R)"
  shows "replacePlaceholders engine (''{{'' @ k @ ''}}'') R = Inr (name R)"
proof -
  have v: "CHR ''{'' \<notin> set (name R)" "literalTemplate (name R)"
    using assms(2) by (simp_all add: inert_def)
  have r1: "replaceAll [''{{name}}''] (name R) (''{{'' @ k @ ''}}'') = name R"
    using replaceAll_token_hit [OF braceFree_standard(1) assms(1) v(2)] by simp
  have r2: "replaceAll [''{{title}}''] w (name R) = name R" for w
    using replaceAll_noBrace [OF v(1), of "''title''"] by simp
  have r3: "replaceAll [''{{date}}''] w (name R) = name R" for w
    using replaceAll_noBrace [OF v(1), of "''date''"] by simp
  show ?thesis
    by (simp only: replacePlaceholders_def Let_def r1 r2 r3 after_standard [OF v(1) assms(3)])
qed

lemma title_token:
  assumes "sameKey ''title'' k" "inert (orEmpty (title R))" "list_all plainKey (fieldKeys R)"
  shows "replacePlaceholders engine (''{{'' @ k @ ''}}'') R = Inr (orEmpty (title R))"
proof -
  have v: "CHR ''{'' \<notin> set (orEmpty (title R))" "literalTemplate (orEmpty (title R))"
    using assms(2) by (simp_all add: inert_def)
  have k: "braceFree k"
    by (rule sameKey_braceFree [OF assms(1) braceFree_standard(2)])
  have r1: "replaceAll [''{{name}}''] w (''{{'' @ k @ ''}}'') = ''{{'' @ k @ ''}}''" for w
    using replaceAll_token_miss [OF braceFree_standard(1) k standard_distinct(1) [OF assms(1)]] by simp
  have r2: "replaceAll [''{{title}}''] (orEmpty (title R)) (''{{'' @ k @ ''}}'') = orEmpty (title R)"
    using replaceAll_token_hit [OF braceFree_standard(2) assms(1) v(2)] by simp
  have r3: "replaceAll [''{{date}}''] w (orEmpty (title R)) = orEmpty (title R)" for w
    using replaceAll_noBrace [OF v(1), of "''date''"] by simp
  show ?thesis
    by (simp only: replacePlaceholders_def Let_def r1 r2 r3 after_standard [OF v(1) assms(3)])
qed

lemma date_token:
  assumes "sameKey ''date'' k" "inert (orEmpty (date R))" "list_all plainKey (fieldKeys R)"
  shows "replacePlaceholders engine (''{{'' @ k @ ''}}'') R = Inr (orEmpty (date R))"
proof -
  have v: "CHR ''{'' \<notin> set (orEmpty (date R))" "literalTemplate (orEmpty (date R))"
    using assms(2) by (simp_all add: inert_def)
  have k: "braceFree k"
    by (rule sameKey_braceFree [OF assms(1) braceFree_standard(3)])
  have r1: "replaceAll [''{{name}}''] w (''{{'' @ k @ ''}}'') = ''{{'' @ k @ ''}}''" for w
    using replaceAll_token_miss [OF braceFree_standard(1) k standard_distinct(2) [OF assms(1)]] by simp
  have r2: "replaceAll [''{{title}}''] w (''{{'' @ k @ ''}}'') = ''{{'' @ k @ ''}}''" for w
    using replaceAll_token_miss [OF braceFree_standard(2) k standard_distinct(3) [OF assms(1)]] by simp
  have r3: "replaceAll [''{{date}}''] (orEmpty (date R)) (''{{'' @ k @ ''}}'') = orEmpty (date R)"
    using replaceAll_token_hit [OF braceFree_standard(3) assms(1) v(2)] by simp
  show ?thesis
    by (simp only: replacePlaceholders_def Let_def r1 r2 r3 after_standard [OF v(1) assms(3)])
qed

lemma no_open_unchanged:
  assumes "\<not> hasOpen text" "list_all plainKey (fieldKeys R)"
  shows "replacePlaceholders engine text R = Inr text"
proof -
  have r: "replaceAll [''{{'' @ key] v text = text" for key v
    using noOpen_replaceFrom [OF assms(1), of key v "[]"] by (simp add: replaceAll_def)
  have r1: "replaceAll [''{{name}}''] v text = text" for v
    using r [of "''name}}''"] by simp
  have r2: "replaceAll [''{{title}}''] v text = text" for v
    using r [of "''title}}''"] by simp
  have r3: "replaceAll [''{{date}}''] v text = text" for v
    using r [of "''date}}''"] by simp
  show ?thesis
  proof (cases "customFields R")
    case None
    then show ?thesis
      by (simp only: replacePlaceholders_def Let_def r1 r2 r3 option.case)
  next
    case (Some entries)
    have "replaceCustomFields engine entries text = Inr text"
      using assms Some by (intro replaceCustomFields_noOpen) (simp_all add: fieldKeys_def)
    then show ?thesis
      using Some by (simp only: replacePlaceholders_def Let_def r1 r2 r3 option.case)
  qed
qed

section \<open>The substitution on texts of literals and tokens\<close>

text \<open>
  On a text of literals without opening brace and of tokens, for a recipient whose values
  are all inert and whose keys are all plain, the replacements that the source runs one
  after the other give what the specification describes: every token is resolved by its
  key, the standard keys first, and unknown tokens stay.
\<close>

lemma passAll_Literal [simp]: "passAll entries (Literal l) = Literal l"
  by (induction entries) auto

lemma passAll_Token:
  "passAll entries (Token k) = (case lookupKey entries k of None \<Rightarrow> Token k | Some v \<Rightarrow> Literal v)"
  by (induction entries) auto

lemma replaceCustomFields_passes:
  "list_all plainKey (map fst entries) \<Longrightarrow> list_all inert (map snd entries) \<Longrightarrow>
   list_all properSegment segs \<Longrightarrow>
   replaceCustomFields engine entries (textOf segs) = Inr (textOf (map (passAll entries) segs))"
proof (induction entries arbitrary: segs)
  case Nil
  then show ?case by (simp add: map_idI)
next
  case (Cons e es)
  obtain key v where e: "e = (key, v)" by (cases e)
  have key: "braceFree key" and v: "CHR ''{'' \<notin> set v" "literalTemplate v"
    using Cons.prems e by (simp_all add: plainKey_braceFree inert_def)
  have r: "replaceAll [''{{'' @ key @ ''}}''] v (textOf segs) = textOf (map (pass key v) segs)"
    by (rule replaceAll_pass [OF key v(2) Cons.prems(3)])
  have p: "list_all properSegment (map (pass key v) segs)"
    by (rule proper_pass [OF v(1) Cons.prems(3)])
  have "replaceCustomFields engine es (textOf (map (pass key v) segs))
          = Inr (textOf (map (passAll es) (map (pass key v) segs)))"
    using Cons.prems e by (intro Cons.IH p) simp_all
  then show ?case
    using Cons.prems e r by (simp add: RegExp_plain comp_def)
qed

lemma standard_then_custom:
  "passAll entries (pass ''date'' (orEmpty (date R)) (pass ''title'' (orEmpty (title R))
      (pass ''name'' (name R) s)))
   = (case s of
        Literal l \<Rightarrow> Literal l
      | Token k \<Rightarrow>
          if sameKey ''name'' k then Literal (name R)
          else if sameKey ''title'' k then Literal (orEmpty (title R))
          else if sameKey ''date'' k then Literal (orEmpty (date R))
          else (case lookupKey entries k of None \<Rightarrow> Token k | Some v \<Rightarrow> Literal v))"
  by (cases s) (simp_all add: passAll_Token)

lemma substitution_by_segments:
  assumes segs: "list_all properSegment segs"
    and vals: "inert (name R)" "inert (orEmpty (title R))" "inert (orEmpty (date R))"
    and keys: "list_all plainKey (fieldKeys R)"
    and custom: "list_all inert (fieldValues R)"
  shows "replacePlaceholders engine (textOf segs) R = Inr (textOf (map (substituteSegment R) segs))"
proof -
  let ?s1 = "map (pass ''name'' (name R)) segs"
  let ?s2 = "map (pass ''title'' (orEmpty (title R))) ?s1"
  let ?s3 = "map (pass ''date'' (orEmpty (date R))) ?s2"
  have nb: "CHR ''{'' \<notin> set (name R)" "CHR ''{'' \<notin> set (orEmpty (title R))"
      "CHR ''{'' \<notin> set (orEmpty (date R))"
    and lt: "literalTemplate (name R)" "literalTemplate (orEmpty (title R))"
      "literalTemplate (orEmpty (date R))"
    using vals by (simp_all add: inert_def)
  have p1: "list_all properSegment ?s1"
    by (rule proper_pass [OF nb(1) segs])
  have p2: "list_all properSegment ?s2"
    by (rule proper_pass [OF nb(2) p1])
  have p3: "list_all properSegment ?s3"
    by (rule proper_pass [OF nb(3) p2])
  have r1: "replaceAll [''{{name}}''] (name R) (textOf segs) = textOf ?s1"
    using replaceAll_pass [OF braceFree_standard(1) lt(1) segs] by simp
  have r2: "replaceAll [''{{title}}''] (orEmpty (title R)) (textOf ?s1) = textOf ?s2"
    using replaceAll_pass [OF braceFree_standard(2) lt(2) p1] by simp
  have r3: "replaceAll [''{{date}}''] (orEmpty (date R)) (textOf ?s2) = textOf ?s3"
    using replaceAll_pass [OF braceFree_standard(3) lt(3) p2] by simp
  show ?thesis
  proof (cases "customFields R")
    case None
    have "map (passAll []) ?s3 = map (substituteSegment R) segs"
      unfolding map_map
      by (rule map_cong [OF refl])
         (simp only: comp_def standard_then_custom, simp add: resolveKey_def None split: segment.splits)
    then have "?s3 = map (substituteSegment R) segs"
      by (simp add: map_idI)
    then show ?thesis
      using None by (simp only: replacePlaceholders_def Let_def r1 r2 r3 option.case)
  next
    case (Some entries)
    have c: "replaceCustomFields engine entries (textOf ?s3) = Inr (textOf (map (passAll entries) ?s3))"
      using keys custom Some
      by (intro replaceCustomFields_passes p3) (simp_all add: fieldKeys_def fieldValues_def)
    have "map (passAll entries) ?s3 = map (substituteSegment R) segs"
      unfolding map_map
      by (rule map_cong [OF refl])
         (simp only: comp_def standard_then_custom, simp add: resolveKey_def Some split: segment.splits)
    then show ?thesis
      using Some c by (simp only: replacePlaceholders_def Let_def r1 r2 r3 option.case)
  qed
qed

text \<open>The substitution is the sequence \<open>replacements\<close>, run as the custom fields are.\<close>

lemma plainKey_standard: "plainKey ''name''" "plainKey ''title''" "plainKey ''date''"
  by (simp_all add: plainKey_def literalKey_def specialCharacter_def)

lemma replacePlaceholders_replacements:
  "replacePlaceholders engine t R = replaceCustomFields engine (replacements R) t"
  using RegExp_plain [OF plainKey_standard(1), of engine] RegExp_plain [OF plainKey_standard(2), of engine]
    RegExp_plain [OF plainKey_standard(3), of engine]
  by (cases "customFields R") (simp_all add: replacePlaceholders_def replacements_def Let_def)

lemma replaceCustomFields_append:
  "replaceCustomFields engine (xs @ ys) t =
     (case replaceCustomFields engine xs t of
        Inl e \<Rightarrow> Inl e
      | Inr t' \<Rightarrow> replaceCustomFields engine ys t')"
  by (induction xs arbitrary: t) (auto split: sum.splits)

lemma literalTemplate_token: "literalTemplate k \<Longrightarrow> literalTemplate (''{{'' @ k @ ''}}'')"
proof -
  have a: "literalTemplate (k @ ''}}'')" if "literalTemplate k" for k
    using that by (induction k rule: literalTemplate.induct) auto
  assume "literalTemplate k"
  then have "literalTemplate (k @ ''}}'')" by (rule a)
  then show ?thesis by (cases k) auto
qed

lemma plain_replacements:
  "list_all plainKey (fieldKeys R) \<Longrightarrow> list_all plainKey (map fst (replacements R))"
  by (cases "customFields R") (simp_all add: replacements_def fieldKeys_def plainKey_standard)

section \<open>The claims on the substitution\<close>

text \<open>
  C3. The claim: for every recipient, with any custom fields, a text with no placeholder
  token is returned unchanged. The key of a custom field is spliced into the pattern source
  without escaping, so a key is read as a pattern: the key \<^verbatim>\<open>|\<close> gives the pattern
  \<^verbatim>\<open>\{\{|\}\}\<close>, which matches two opening braces and also two closing braces. The text
  \<^verbatim>\<open>}}\<close> has no token and is rewritten to the value of that field.
\<close>

theorem token_free_text_rewritten:
  "\<not> hasOpen ''}}'' \<and>
   replacePlaceholders engine ''}}''
     \<lparr>name = ''Ann'', title = None, date = None, customFields = Some [(''|'', ''X'')]\<rparr>
   = Inr ''X''"
  by (simp add: replacePlaceholders_def replaceAll_def canonicalize_def orEmpty_def RegExp_def
      literalKey_def specialCharacter_def)

text \<open>
  C4 as stated: for every recipient, the text \<^verbatim>\<open>{{name}}\<close> is replaced by the name. It
  fails for the recipient whose name is \<^verbatim>\<open>{{title}}\<close> and whose title is \<^verbatim>\<open>Dr\<close>: the
  replacement of the title runs over the text the replacement of the name has produced.
\<close>

theorem name_token_counterexample:
  "replacePlaceholders (\<lambda>key. Inl NonError) ''{{name}}''
     \<lparr>name = ''{{title}}'', title = Some ''Dr'', date = None, customFields = None\<rparr>
   \<noteq> Inr (name \<lparr>name = ''{{title}}'', title = Some ''Dr'', date = None, customFields = None\<rparr>)"
  by (simp add: replacePlaceholders_def replaceAll_def canonicalize_def orEmpty_def)

text \<open>
  C4, amended. Let the name, the title (or the empty string) and the date (or the empty
  string) of the recipient have no opening brace and none of \<^verbatim>\<open>$$\<close>, \<^verbatim>\<open>$&\<close>, \<^verbatim>\<open>$`\<close>,
  \<^verbatim>\<open>$'\<close>, and let the keys of the custom fields have no character of the pattern syntax.
  Then in every text made of literals without opening brace and of tokens that are, up to
  case, \<^verbatim>\<open>{{name}}\<close>, \<^verbatim>\<open>{{title}}\<close> or \<^verbatim>\<open>{{date}}\<close>, the substitution replaces every token by
  the value of its field and leaves the literals as they are.
\<close>

theorem standard_tokens_replaced:
  assumes segs: "list_all properSegment segs" "list_all standardOnly segs"
    and vals: "inert (name R)" "inert (orEmpty (title R))" "inert (orEmpty (date R))"
    and keys: "list_all plainKey (fieldKeys R)"
  shows "replacePlaceholders engine (textOf segs) R = Inr (textOf (map (substituteStandard R) segs))"
proof -
  let ?s1 = "map (pass ''name'' (name R)) segs"
  let ?s2 = "map (pass ''title'' (orEmpty (title R))) ?s1"
  let ?s3 = "map (pass ''date'' (orEmpty (date R))) ?s2"
  have nb: "CHR ''{'' \<notin> set (name R)" "CHR ''{'' \<notin> set (orEmpty (title R))"
    and lt: "literalTemplate (name R)" "literalTemplate (orEmpty (title R))"
      "literalTemplate (orEmpty (date R))"
    using vals by (simp_all add: inert_def)
  have p1: "list_all properSegment ?s1"
    by (rule proper_pass [OF nb(1) segs(1)])
  have p2: "list_all properSegment ?s2"
    by (rule proper_pass [OF nb(2) p1])
  have r1: "replaceAll [''{{name}}''] (name R) (textOf segs) = textOf ?s1"
    using replaceAll_pass [OF braceFree_standard(1) lt(1) segs(1)] by simp
  have r2: "replaceAll [''{{title}}''] (orEmpty (title R)) (textOf ?s1) = textOf ?s2"
    using replaceAll_pass [OF braceFree_standard(2) lt(2) p1] by simp
  have r3: "replaceAll [''{{date}}''] (orEmpty (date R)) (textOf ?s2) = textOf ?s3"
    using replaceAll_pass [OF braceFree_standard(3) lt(3) p2] by simp
  have s3: "?s3 = map (substituteStandard R) segs"
    using segs(2) by (induction segs) (simp_all add: standard_passes)
  have clean: "\<not> hasOpen (textOf ?s3)"
    unfolding s3 by (rule noBrace_noOpen [OF textOf_literals [OF segs vals]])
  have custom: "replaceCustomFields engine entries (textOf ?s3) = Inr (textOf ?s3)"
    if "customFields R = Some entries" for entries
  proof -
    have "list_all plainKey (map fst entries)"
      using keys that by (simp add: fieldKeys_def)
    then show ?thesis using clean by (rule replaceCustomFields_noOpen)
  qed
  show ?thesis
  proof (cases "customFields R")
    case None
    then show ?thesis
      by (simp only: replacePlaceholders_def Let_def r1 r2 r3 s3 option.case)
  next
    case (Some entries)
    then show ?thesis
      by (simp only: replacePlaceholders_def Let_def r1 r2 r3 option.case custom [OF Some, unfolded s3] s3)
  qed
qed

theorem standard_tokens_replaced_witness:
  "replacePlaceholders (\<lambda>key. Inl NonError) ''{{NAME}}: {{title}} {{name}} ({{Date}})''
     \<lparr>name = ''Ann $1'', title = Some ''Dr'', date = None,
      customFields = Some [(''org'', ''{{name}} $& Inc'')]\<rparr>
   = Inr ''Ann $1: Dr Ann $1 ()''"
  using standard_tokens_replaced
    [of "[Token ''NAME'', Literal '': '', Token ''title'', Literal '' '', Token ''name'',
          Literal '' ('', Token ''Date'', Literal '')'']"
        "\<lparr>name = ''Ann $1'', title = Some ''Dr'', date = None,
          customFields = Some [(''org'', ''{{name}} $& Inc'')]\<rparr>"
        "\<lambda>key. Inl NonError"]
  by (simp add: braceFree_def standardKey_def standardValue_def sameKey_def canonicalize_def
      inert_def orEmpty_def fieldKeys_def plainKey_def literalKey_def specialCharacter_def)

text \<open>
  C8 as stated: for every recipient whose custom fields have an entry named \<^verbatim>\<open>name\<close>, the
  token \<^verbatim>\<open>{{name}}\<close> is resolved from the standard field. It fails for the recipient whose name
  is \<^verbatim>\<open>{{name}}\<close>: the replacement of the custom field runs over the text the replacement of
  the name has produced, and the result is the value of the custom field.
\<close>

theorem precedence_counterexample:
  "replacePlaceholders (\<lambda>key. Inl NonError) ''{{name}}''
     \<lparr>name = ''{{name}}'', title = None, date = None, customFields = Some [(''name'', ''Bob'')]\<rparr>
   = Inr ''Bob''
   \<and> name \<lparr>name = ''{{name}}'', title = None, date = None, customFields = Some [(''name'', ''Bob'')]\<rparr>
       \<noteq> ''Bob''"
  by (simp add: replacePlaceholders_def replaceAll_def canonicalize_def orEmpty_def RegExp_def
      literalKey_def specialCharacter_def)

text \<open>
  C8, amended. Let the keys of the custom fields have no character of the pattern syntax.
  If the custom fields have an entry named \<^verbatim>\<open>name\<close> and the name of the recipient has no
  opening brace and none of \<^verbatim>\<open>$$\<close>, \<^verbatim>\<open>$&\<close>, \<^verbatim>\<open>$`\<close>, \<^verbatim>\<open>$'\<close>, then the token \<^verbatim>\<open>{{name}}\<close>, in
  any case, is replaced by the name of the recipient, whatever the value of the entry; and
  likewise for \<^verbatim>\<open>title\<close> and \<^verbatim>\<open>date\<close>, with the empty string for an absent field.
\<close>

theorem standard_field_precedence:
  assumes "customFields R = Some entries" and "list_all plainKey (map fst entries)"
  shows "(sameKey ''name'' k \<and> map_of entries ''name'' = Some v \<and> inert (name R)
            \<longrightarrow> replacePlaceholders engine (''{{'' @ k @ ''}}'') R = Inr (name R))
       \<and> (sameKey ''title'' k \<and> map_of entries ''title'' = Some v \<and> inert (orEmpty (title R))
            \<longrightarrow> replacePlaceholders engine (''{{'' @ k @ ''}}'') R = Inr (orEmpty (title R)))
       \<and> (sameKey ''date'' k \<and> map_of entries ''date'' = Some v \<and> inert (orEmpty (date R))
            \<longrightarrow> replacePlaceholders engine (''{{'' @ k @ ''}}'') R = Inr (orEmpty (date R)))"
proof -
  have keys: "list_all plainKey (fieldKeys R)"
    using assms by (simp add: fieldKeys_def)
  show ?thesis
    using name_token [OF _ _ keys] title_token [OF _ _ keys] date_token [OF _ _ keys] by blast
qed

theorem standard_field_precedence_witness:
  "replacePlaceholders (\<lambda>key. Inl NonError) ''{{Name}}''
     \<lparr>name = ''Ann'', title = None, date = None,
      customFields = Some [(''name'', ''Bob''), (''title'', ''Sir'')]\<rparr> = Inr ''Ann''
   \<and> replacePlaceholders (\<lambda>key. Inl NonError) ''{{title}}''
     \<lparr>name = ''Ann'', title = None, date = None,
      customFields = Some [(''name'', ''Bob''), (''title'', ''Sir'')]\<rparr> = Inr ''''"
  using standard_field_precedence
    [of "\<lparr>name = ''Ann'', title = None, date = None,
          customFields = Some [(''name'', ''Bob''), (''title'', ''Sir'')]\<rparr>"
        "[(''name'', ''Bob''), (''title'', ''Sir'')]" "''Name''" "''Bob''" "\<lambda>key. Inl NonError"]
    standard_field_precedence
    [of "\<lparr>name = ''Ann'', title = None, date = None,
          customFields = Some [(''name'', ''Bob''), (''title'', ''Sir'')]\<rparr>"
        "[(''name'', ''Bob''), (''title'', ''Sir'')]" "''title''" "''Sir''" "\<lambda>key. Inl NonError"]
  by (simp add: sameKey_def canonicalize_def inert_def orEmpty_def plainKey_def literalKey_def
      specialCharacter_def)

text \<open>
  C9 as stated: a token whose key is none of \<^verbatim>\<open>name\<close>, \<^verbatim>\<open>title\<close>, \<^verbatim>\<open>date\<close> and has no entry
  in the custom fields is left as it is. The patterns carry the flag \<^verbatim>\<open>i\<close>: the key
  \<^verbatim>\<open>foo\<close> has no entry in the custom fields whose only key is \<^verbatim>\<open>FOO\<close>, and the token
  \<^verbatim>\<open>{{foo}}\<close> is replaced by the value of that field.
\<close>

theorem unknown_token_counterexample:
  "map_of [(''FOO'', ''X'')] ''foo'' = None
   \<and> ''foo'' \<notin> set [''name'', ''title'', ''date'']
   \<and> replacePlaceholders (\<lambda>key. Inl NonError) ''{{foo}}''
        \<lparr>name = ''Ann'', title = None, date = None, customFields = Some [(''FOO'', ''X'')]\<rparr>
      = Inr ''X''"
  by (simp add: replacePlaceholders_def replaceAll_def canonicalize_def orEmpty_def RegExp_def
      literalKey_def specialCharacter_def)

text \<open>
  C9, amended. Let the key \<open>k\<close> have no brace and be, up to case, none of \<^verbatim>\<open>name\<close>,
  \<^verbatim>\<open>title\<close>, \<^verbatim>\<open>date\<close> and none of the keys of the custom fields, and let the keys of the
  custom fields have no character of the pattern syntax. Then the substitution returns the
  token \<^verbatim>\<open>{{k}}\<close> as it is, and throws nothing.
\<close>

theorem unknown_token_unchanged:
  assumes "braceFree k" and "\<not> standardKey k"
    and "list_all plainKey (fieldKeys R)"
    and "\<not> list_ex (\<lambda>key. sameKey key k) (fieldKeys R)"
  shows "replacePlaceholders engine (''{{'' @ k @ ''}}'') R = Inr (''{{'' @ k @ ''}}'')"
proof -
  have std: "\<not> sameKey ''name'' k" "\<not> sameKey ''title'' k" "\<not> sameKey ''date'' k"
    using assms(2) by (simp_all add: standardKey_def)
  have r1: "replaceAll [''{{name}}''] v (''{{'' @ k @ ''}}'') = ''{{'' @ k @ ''}}''" for v
    using replaceAll_token_miss [OF braceFree_standard(1) assms(1) std(1)] by simp
  have r2: "replaceAll [''{{title}}''] v (''{{'' @ k @ ''}}'') = ''{{'' @ k @ ''}}''" for v
    using replaceAll_token_miss [OF braceFree_standard(2) assms(1) std(2)] by simp
  have r3: "replaceAll [''{{date}}''] v (''{{'' @ k @ ''}}'') = ''{{'' @ k @ ''}}''" for v
    using replaceAll_token_miss [OF braceFree_standard(3) assms(1) std(3)] by simp
  show ?thesis
  proof (cases "customFields R")
    case None
    then show ?thesis
      by (simp only: replacePlaceholders_def Let_def r1 r2 r3 option.case)
  next
    case (Some entries)
    have "replaceCustomFields engine entries (''{{'' @ k @ ''}}'') = Inr (''{{'' @ k @ ''}}'')"
      using assms(3,4) Some
      by (intro replaceCustomFields_token_miss assms(1)) (simp_all add: fieldKeys_def)
    then show ?thesis
      using Some by (simp only: replacePlaceholders_def Let_def r1 r2 r3 option.case)
  qed
qed

theorem unknown_token_unchanged_witness:
  "replacePlaceholders (\<lambda>key. Inl NonError) ''{{foo}}''
     \<lparr>name = ''$&'', title = None, date = None, customFields = Some [(''org'', ''{{foo}}'')]\<rparr>
   = Inr ''{{foo}}''"
  using unknown_token_unchanged
    [of "''foo''"
        "\<lparr>name = ''$&'', title = None, date = None, customFields = Some [(''org'', ''{{foo}}'')]\<rparr>"
        "\<lambda>key. Inl NonError"]
  by (simp add: braceFree_def standardKey_def sameKey_def canonicalize_def fieldKeys_def
      plainKey_def literalKey_def specialCharacter_def)

text \<open>
  C10. The replacements run one after the other, each over the text the one before has
  produced, in the order of \<open>replacements\<close>: the name, then the title, then the date, then the
  custom fields in the order of the mapping. Let the token \<^verbatim>\<open>{{k1}}\<close> be the text, let the
  first replacement whose key is \<open>k1\<close> up to case put for it another token \<^verbatim>\<open>{{k2}}\<close>, the
  keys of the custom fields being plain and the values of the replacements after that one
  being inert. Then the result is what the replacements after that one make of
  \<^verbatim>\<open>{{k2}}\<close>: the value of the first of them whose key is \<open>k2\<close> up to case, and the token
  \<^verbatim>\<open>{{k2}}\<close> itself when none of them has that key, also when a replacement before has it.
  So the name \<^verbatim>\<open>{{date}}\<close> gives the date for \<^verbatim>\<open>{{name}}\<close>, and the date \<^verbatim>\<open>{{name}}\<close> stays
  for \<^verbatim>\<open>{{date}}\<close>.
\<close>

theorem sequential_substitution:
  assumes order: "replacements R = earlier @ (key, ''{{'' @ k2 @ ''}}'') # later"
    and hit: "sameKey key k1"
    and miss: "\<not> list_ex (\<lambda>key'. sameKey key' k1) (map fst earlier)"
    and k2: "braceFree k2" "literalTemplate k2"
    and keys: "list_all plainKey (fieldKeys R)"
    and vals: "list_all inert (map snd later)"
  shows "replacePlaceholders engine (''{{'' @ k1 @ ''}}'') R
           = Inr (case lookupKey later k2 of None \<Rightarrow> ''{{'' @ k2 @ ''}}'' | Some v \<Rightarrow> v)"
proof -
  have plain: "list_all plainKey (map fst earlier)" "plainKey key" "list_all plainKey (map fst later)"
    using plain_replacements [OF keys] order by simp_all
  have k1: "braceFree k1"
    by (rule sameKey_braceFree [OF hit plainKey_braceFree [OF plain(2)]])
  have first: "replaceCustomFields engine earlier (''{{'' @ k1 @ ''}}'') = Inr (''{{'' @ k1 @ ''}}'')"
    by (rule replaceCustomFields_token_miss [OF k1 plain(1) miss])
  have here: "replaceAll [''{{'' @ key @ ''}}''] (''{{'' @ k2 @ ''}}'') (''{{'' @ k1 @ ''}}'')
                = ''{{'' @ k2 @ ''}}''"
    by (rule replaceAll_token_hit [OF plainKey_braceFree [OF plain(2)] hit literalTemplate_token [OF k2(2)]])
  have "replaceCustomFields engine later (textOf [Token k2]) = Inr (textOf (map (passAll later) [Token k2]))"
    using plain(3) vals k2(1) by (intro replaceCustomFields_passes) simp_all
  then have rest: "replaceCustomFields engine later (''{{'' @ k2 @ ''}}'')
                = Inr (case lookupKey later k2 of None \<Rightarrow> ''{{'' @ k2 @ ''}}'' | Some v \<Rightarrow> v)"
    by (simp add: passAll_Token split: option.splits)
  show ?thesis
    unfolding replacePlaceholders_replacements order replaceCustomFields_append first
    using here rest by (simp add: RegExp_plain [OF plain(2)])
qed

theorem sequential_substitution_witness:
  "replacePlaceholders (\<lambda>key. Inl NonError) ''{{name}}''
     \<lparr>name = ''{{date}}'', title = Some ''Dr'', date = Some ''2024'', customFields = None\<rparr>
     = Inr ''2024''
   \<and> replacePlaceholders (\<lambda>key. Inl NonError) ''{{date}}''
     \<lparr>name = ''Ann'', title = Some ''Dr'', date = Some ''{{name}}'',
      customFields = Some [(''org'', ''ACME'')]\<rparr>
     = Inr ''{{name}}''"
  using sequential_substitution
    [of "\<lparr>name = ''{{date}}'', title = Some ''Dr'', date = Some ''2024'', customFields = None\<rparr>"
        "[]" "''name''" "''date''" "[(''title'', ''Dr''), (''date'', ''2024'')]" "''name''"
        "\<lambda>key. Inl NonError"]
    sequential_substitution
    [of "\<lparr>name = ''Ann'', title = Some ''Dr'', date = Some ''{{name}}'',
          customFields = Some [(''org'', ''ACME'')]\<rparr>"
        "[(''name'', ''Ann''), (''title'', ''Dr'')]" "''date''" "''name''" "[(''org'', ''ACME'')]"
        "''date''" "\<lambda>key. Inl NonError"]
  by (simp add: replacements_def orEmpty_def sameKey_def canonicalize_def braceFree_def
      fieldKeys_def inert_def plainKey_def literalKey_def specialCharacter_def)

section \<open>The claim on the validation\<close>

lemma checkPlaceholders_eq:
  "checkPlaceholders i r required errs =
     errs @ map (missingField i r) (filter (\<lambda>p. falsy (placeholderValue r p)) required)"
  by (induction required arbitrary: errs) simp_all

lemma checkRecipients_eq:
  "checkRecipients i rs required errs =
     errs @ concat (map (\<lambda>(j, r). map (missingField j r)
                       (filter (\<lambda>p. falsy (placeholderValue r p)) required)) (enumerate i rs))"
  by (induction rs arbitrary: i errs) (simp_all add: checkPlaceholders_eq)

lemma concat_empty_all:
  "concat (map (\<lambda>(j, r). map (f j r) (filter (P r) required)) (enumerate i rs)) = []
     \<longleftrightarrow> list_all (\<lambda>r. list_all (\<lambda>p. \<not> P r p) required) rs"
  by (induction rs arbitrary: i) (auto simp: list_all_iff filter_empty_conv)

lemma falsy_lacks:
  "falsy (placeholderValue r p) \<longleftrightarrow> lacks r p \<and> \<not> inheritedMember r p"
  by (auto simp: falsy_def placeholderValue_def optionalString_def customField_def lacks_def
      inheritedMember_def split: option.splits)

lemma validation_errors:
  "errors (validateRecipientData recipients required) =
     concat (map (\<lambda>(i, r).
         map (\<lambda>p. ''Recipient '' @ showNat (i + 1) @ '' ('' @ name r @ '') is missing field: '' @ p)
           (filter (\<lambda>p. lacks r p \<and> \<not> inheritedMember r p) required))
       (enumerate 0 recipients))"
  "valid (validateRecipientData recipients required)
     = (errors (validateRecipientData recipients required) = [])"
  "valid (validateRecipientData recipients required)
     = list_all (\<lambda>r. list_all (\<lambda>p. \<not> lacks r p \<or> inheritedMember r p) required) recipients"
proof -
  have e: "errors (validateRecipientData recipients required) =
     concat (map (\<lambda>(i, r). map (missingField i r)
         (filter (\<lambda>p. lacks r p \<and> \<not> inheritedMember r p) required)) (enumerate 0 recipients))"
    by (simp add: validateRecipientData_def Let_def checkRecipients_eq falsy_lacks)
  have m: "missingField i r = (\<lambda>p. ''Recipient '' @ showNat (i + 1) @ '' ('' @ name r @ '') is missing field: '' @ p)"
    for i r
    by (rule ext) (simp add: missingField_def)
  show "errors (validateRecipientData recipients required) =
     concat (map (\<lambda>(i, r).
         map (\<lambda>p. ''Recipient '' @ showNat (i + 1) @ '' ('' @ name r @ '') is missing field: '' @ p)
           (filter (\<lambda>p. lacks r p \<and> \<not> inheritedMember r p) required))
       (enumerate 0 recipients))"
    using e by (simp add: m)
  show v: "valid (validateRecipientData recipients required)
       = (errors (validateRecipientData recipients required) = [])"
    by (simp add: validateRecipientData_def Let_def)
  show "valid (validateRecipientData recipients required)
     = list_all (\<lambda>r. list_all (\<lambda>p. \<not> lacks r p \<or> inheritedMember r p) required) recipients"
    unfolding v e
    using concat_empty_all [of missingField "\<lambda>r p. lacks r p \<and> \<not> inheritedMember r p" required 0 recipients]
    by simp
qed

lemma validation_reports_lacking:
  assumes "list_all (\<lambda>p. p \<notin> set objectPrototypeKeys) required"
  shows "errors (validateRecipientData recipients required) =
     concat (map (\<lambda>(i, r).
         map (\<lambda>p. ''Recipient '' @ showNat (i + 1) @ '' ('' @ name r @ '') is missing field: '' @ p)
           (filter (lacks r) required))
       (enumerate 0 recipients))"
    and "valid (validateRecipientData recipients required)
     = list_all (\<lambda>r. list_all (\<lambda>p. \<not> lacks r p) required) recipients"
proof -
  have n: "p \<in> set required \<Longrightarrow> \<not> inheritedMember r p" for r p
    using assms by (auto simp: list_all_iff inheritedMember_def)
  have f: "filter (\<lambda>p. lacks r p \<and> \<not> inheritedMember r p) required = filter (lacks r) required" for r
    by (rule filter_cong) (auto simp: n)
  show "errors (validateRecipientData recipients required) =
     concat (map (\<lambda>(i, r).
         map (\<lambda>p. ''Recipient '' @ showNat (i + 1) @ '' ('' @ name r @ '') is missing field: '' @ p)
           (filter (lacks r) required))
       (enumerate 0 recipients))"
    unfolding validation_errors(1) f ..
  show "valid (validateRecipientData recipients required)
     = list_all (\<lambda>r. list_all (\<lambda>p. \<not> lacks r p) required) recipients"
    unfolding validation_errors(3) using n by (auto simp: list_all_iff)
qed

text \<open>
  C7. The claim: every recipient and required key whose field is absent or empty gets one
  error, and the data is valid exactly when there is no error. The validation does not stop
  at the first error, and for required keys that no object inherits this is
  \<open>validation_reports_lacking\<close>; \<open>validation_errors\<close> gives the errors for all keys. A
  recipient with the name Ann and no custom field at all lacks the field \<^verbatim>\<open>constructor\<close>.
  But reading that key from the custom fields yields the member of that name that every
  object inherits, which is not falsy: no error is pushed and the data is reported valid,
  while the field \<^verbatim>\<open>org\<close>, absent in the same way, is reported.
\<close>

theorem inherited_member_not_reported:
  "lacks \<lparr>name = ''Ann'', title = None, date = None, customFields = Some []\<rparr> ''constructor''
   \<and> validateRecipientData
       [\<lparr>name = ''Ann'', title = None, date = None, customFields = Some []\<rparr>] [''constructor'']
     = \<lparr>valid = True, errors = []\<rparr>
   \<and> validateRecipientData
       [\<lparr>name = ''Ann'', title = None, date = None, customFields = Some []\<rparr>]
       [''name'', ''org'', ''constructor'']
     = \<lparr>valid = False, errors = [''Recipient 1 (Ann) is missing field: org'']\<rparr>"
  by (simp add: lacks_def validateRecipientData_def placeholderValue_def customField_def
      falsy_def objectPrototypeKeys_def missingField_def showNat.simps)

section \<open>The claim on the loader\<close>

lemma loadRecipient_hasName:
  "hasName v \<Longrightarrow> loadRecipient i v = Inr (defaulted v)"
  by (cases v)
     (auto simp: hasName_def loadRecipient_def getProperty_def member_def defaulted_def orElse_def
       split: option.splits json.splits)

lemma loadRecipient_invalid:
  "\<not> hasName v \<Longrightarrow> v \<noteq> JNull \<Longrightarrow> loadRecipient i v = Inl (MissingName i)"
  by (cases v)
     (auto simp: hasName_def loadRecipient_def getProperty_def member_def
       split: option.splits json.splits)

lemma loadRecipient_null: "loadRecipient i JNull = Inl (NullTypeError ''name'')"
  by (simp add: loadRecipient_def getProperty_def)

lemma loadRecipients_all:
  "list_all hasName rs \<Longrightarrow> loadRecipients i rs = Inr (map defaulted rs)"
  by (induction rs arbitrary: i) (simp_all add: loadRecipient_hasName)

lemma loadRecipients_first_invalid:
  "list_all hasName good \<Longrightarrow> \<not> hasName v \<Longrightarrow> v \<noteq> JNull \<Longrightarrow>
   loadRecipients i (good @ v # rest) = Inl (MissingName (i + length good))"
  by (induction good arbitrary: i) (simp_all add: loadRecipient_hasName loadRecipient_invalid)

lemma loadRecipients_first_null:
  "list_all hasName good \<Longrightarrow>
   loadRecipients i (good @ JNull # rest) = Inl (NullTypeError ''name'')"
  by (induction good arbitrary: i) (simp_all add: loadRecipient_hasName loadRecipient_null)

lemma parse_recipients:
  "parseRecipientsFile (Document (JObject [(''recipients'', JArray rs)])) = loadRecipients 0 rs"
  by (simp add: parseRecipientsFile_def getProperty_def member_def)

lemma load_all_or_nothing:
  "list_all hasName rs \<Longrightarrow>
     parseRecipientsFile (Document (JObject [(''recipients'', JArray rs)])) = Inr (map defaulted rs)"
  "list_all hasName good \<Longrightarrow> \<not> hasName v \<Longrightarrow> v \<noteq> JNull \<Longrightarrow>
     parseRecipientsFile (Document (JObject [(''recipients'', JArray (good @ v # rest))]))
       = Inl (MissingName (length good))"
  using loadRecipients_all [of rs 0] loadRecipients_first_invalid [of good v 0 rest]
  by (simp_all add: parse_recipients)

lemma defaulted_missing:
  "member v ''title'' = None \<Longrightarrow> loadedTitle (defaulted v) = JString []"
  "member v ''date'' = None \<Longrightarrow> loadedDate (defaulted v) = JString []"
  "member v ''customFields'' = None \<Longrightarrow> loadedCustomFields (defaulted v) = JObject []"
  by (simp_all add: defaulted_def orElse_def)

text \<open>
  C6. The claim: the first record without a non-empty string \<^verbatim>\<open>name\<close> ends the load with an
  error that names the index of that record. For every record that is not \<^verbatim>\<open>null\<close> this is
  \<open>load_all_or_nothing\<close>, with the defaults of \<open>defaulted_missing\<close> on success. A record that
  is \<^verbatim>\<open>null\<close> has no name either, but reading its name throws: the loader rejects with the
  type error of the runtime, whose text the source does not fix, and not with the error
  that names the index 1 of the record.
\<close>

theorem null_record_not_indexed:
  "parseRecipientsFile
     (Document (JObject [(''recipients'', JArray [JObject [(''name'', JString ''Bo'')], JNull])]))
   = Inl (NullTypeError ''name'')
   \<and> rejectionMessage (NullTypeError ''name'') = None
   \<and> NullTypeError ''name'' \<noteq> MissingName 1"
  by (simp add: parseRecipientsFile_def getProperty_def member_def loadRecipient_def orElse_def
      rejectionMessage_def)

section \<open>The batch generator: its loop and its runs\<close>

lemma reached_le: "reached ok rs \<le> length rs"
  by (induction rs) auto

lemma reached_all: "list_all ok rs \<Longrightarrow> reached ok rs = length rs"
  by (induction rs) auto

lemma reached_pos: "rs \<noteq> [] \<Longrightarrow> 0 < reached ok rs"
  by (cases rs) auto

lemma reached_first:
  "\<not> list_all ok rs \<Longrightarrow>
   reached ok rs - 1 < length rs \<and> list_all ok (take (reached ok rs - 1) rs)
     \<and> \<not> ok (rs ! (reached ok rs - 1))"
proof (induction rs)
  case Nil
  then show ?case by simp
next
  case (Cons r rs)
  show ?case
  proof (cases "ok r")
    case False
    then show ?thesis by simp
  next
    case True
    then have "\<not> list_all ok rs" using Cons.prems by simp
    then have ih: "reached ok rs - 1 < length rs" "list_all ok (take (reached ok rs - 1) rs)"
      "\<not> ok (rs ! (reached ok rs - 1))" and ne: "rs \<noteq> []"
      using Cons.IH by auto
    have pos: "0 < reached ok rs" by (rule reached_pos [OF ne])
    from pos obtain m where m: "reached ok rs = Suc m" by (cases "reached ok rs") auto
    show ?thesis using True ih by (simp add: m)
  qed
qed

lemma each_result:
  "fst (generateEach E env b tpl tes ies ld i rs s) = None
     \<longleftrightarrow> list_all (framed E env tpl tes ies ld) rs"
  by (induction rs arbitrary: i s)
     (auto simp: Let_def framed_def canvasToBlob_def split: sum.splits)

lemma each_emitted_callback:
  "emitted (snd (generateEach E env True tpl tes ies ld i rs s)) =
     emitted s @ map (\<lambda>j. (progress s)\<lparr>current := i + j, currentName := Some (name (rs ! j))\<rparr>)
                   [0..<reached (framed E env tpl tes ies ld) rs]"
proof (induction rs arbitrary: i s)
  case Nil
  then show ?case by simp
next
  case (Cons r rs)
  show ?case
    by (simp add: Let_def framed_def canvasToBlob_def emit_def Cons.IH map_upt_Suc
        del: upt_Suc split: sum.splits)
qed

lemma each_emitted_silent:
  "emitted (snd (generateEach E env False tpl tes ies ld i rs s)) = emitted s"
proof (induction rs arbitrary: i s)
  case Nil
  then show ?case by simp
next
  case (Cons r rs)
  show ?case
    by (simp add: Let_def canvasToBlob_def emit_def Cons.IH split: sum.splits)
qed

lemma each_emitted:
  "emitted (snd (generateEach E env b tpl tes ies ld i rs s)) =
     emitted s @ (if b then map (\<lambda>j. (progress s)\<lparr>current := i + j, currentName := Some (name (rs ! j))\<rparr>)
                   [0..<reached (framed E env tpl tes ies ld) rs] else [])"
  by (cases b) (simp_all add: each_emitted_callback each_emitted_silent del: upt_Suc)

lemma emit_fields [simp]:
  "progress (emit b s) = progress s" "zip (emit b s) = zip s"
  by (simp_all add: emit_def)

lemma framedE:
  assumes "framed E env tpl tes ies ld r"
  obtains canvas where "renderCertificate E tpl tes ies r ld = Inr canvas" "encodes env canvas"
  using assms by (auto simp: framed_def split: sum.splits)

lemma each_step_ok:
  assumes "framed E env tpl tes ies ld r"
  shows "generateEach E env b tpl tes ies ld i (r # rs) s =
           generateEach E env b tpl tes ies ld (i + 1) rs
             ((emit b (s\<lparr>progress := (progress s)\<lparr>current := i, currentName := Some (name r)\<rparr>\<rparr>))
                \<lparr>zip := AList.update (certificateFilename r) (frameOf E tpl tes ies ld r) (zip s)\<rparr>)"
  using assms by (auto simp: Let_def canvasToBlob_def frameOf_def elim!: framedE)

lemma each_step_fail:
  assumes "\<not> framed E env tpl tes ies ld r"
  shows "snd (generateEach E env b tpl tes ies ld i (r # rs) s) =
           emit b (s\<lparr>progress := (progress s)\<lparr>current := i, currentName := Some (name r)\<rparr>\<rparr>)"
  using assms by (auto simp: Let_def canvasToBlob_def framed_def split: sum.splits)

lemma each_progress:
  "progress (snd (generateEach E env b tpl tes ies ld i rs s)) =
     (if rs = [] then progress s
      else (progress s)\<lparr>current := i + (reached (framed E env tpl tes ies ld) rs - 1),
             currentName := Some (name (rs ! (reached (framed E env tpl tes ies ld) rs - 1)))\<rparr>)"
proof (induction rs arbitrary: i s)
  case Nil
  then show ?case by simp
next
  case (Cons r rs)
  show ?case
  proof (cases "framed E env tpl tes ies ld r")
    case False
    then show ?thesis by (simp add: each_step_fail del: generateEach.simps)
  next
    case True
    note step = each_step_ok [OF True, of b i rs s]
    show ?thesis
      unfolding step
      using reached_pos [of rs "framed E env tpl tes ies ld"] True
      by (cases "rs = []") (simp_all add: Cons.IH)
  qed
qed

lemma each_zip:
  "list_all (framed E env tpl tes ies ld) rs \<Longrightarrow>
   map fst (zip (snd (generateEach E env b tpl tes ies ld i rs s))) =
     foldl addName (map fst (zip s)) (map certificateFilename rs)"
proof (induction rs arbitrary: i s)
  case Nil
  then show ?case by simp
next
  case (Cons r rs)
  then have ok: "framed E env tpl tes ies ld r" and rest: "list_all (framed E env tpl tes ies ld) rs"
    by simp_all
  show ?case
    by (simp add: each_step_ok [OF ok] Cons.IH [OF rest] update_keys addName_def
        del: generateEach.simps)
qed

lemma each_zip_contents:
  "list_all (framed E env tpl tes ies ld) rs \<Longrightarrow>
   map_of (zip (snd (generateEach E env b tpl tes ies ld i rs s))) =
     map_of (rev (map (\<lambda>r. (certificateFilename r, frameOf E tpl tes ies ld r)) rs) @ zip s)"
proof (induction rs arbitrary: i s)
  case Nil
  then show ?case by simp
next
  case (Cons r rs)
  then have ok: "framed E env tpl tes ies ld r" and rest: "list_all (framed E env tpl tes ies ld) rs"
    by simp_all
  show ?case
    by (simp add: each_step_ok [OF ok] Cons.IH [OF rest] update_conv' del: generateEach.simps)
qed

lemma addName_distinct: "distinct acc \<Longrightarrow> distinct (foldl addName acc ns)"
  by (induction ns arbitrary: acc) (auto simp: addName_def)

lemma addName_set: "set (foldl addName acc ns) = set acc \<union> set ns"
  by (induction ns arbitrary: acc) (auto simp: addName_def)

lemma addName_fresh: "distinct (acc @ ns) \<Longrightarrow> foldl addName acc ns = acc @ ns"
  by (induction ns arbitrary: acc) (auto simp: addName_def)

lemma loadImages_ok:
  "list_all (\<lambda>element. imageLoads env (src element)) ies \<Longrightarrow> loadImages env ies = Inr (loadedAll ies)"
  by (induction ies) (simp_all add: loadImage_def loadedAll_def)

lemma loadImages_fail:
  "\<not> list_all (\<lambda>element. imageLoads env (src element)) ies \<Longrightarrow>
   \<exists>source. loadImages env ies = Inl (Error (''Failed to load image: '' @ source))"
  by (induction ies) (auto simp: loadImage_def split: sum.splits)

lemma replaceCustomFields_thrown:
  "replaceCustomFields engine entries t = Inl e \<Longrightarrow> \<exists>key. engine key = Inl e"
  by (induction entries arbitrary: t) (auto simp: RegExp_def split: sum.splits if_splits)

lemma replacePlaceholders_thrown:
  "replacePlaceholders engine t R = Inl e \<Longrightarrow> \<exists>key. engine key = Inl e"
  by (auto simp: replacePlaceholders_def Let_def split: option.splits
      dest: replaceCustomFields_thrown)

lemma drawTexts_thrown:
  "drawTexts engine tes R canvas = Inl e \<Longrightarrow> \<exists>key. engine key = Inl e"
  by (induction tes arbitrary: canvas) (auto split: sum.splits dest: replacePlaceholders_thrown)

lemma renderCertificate_thrown:
  "renderCertificate engine tpl tes ies R ld = Inl e \<Longrightarrow> \<exists>key. engine key = Inl e"
  by (auto simp: renderCertificate_def Let_def dest: drawTexts_thrown)

lemma each_thrown:
  "fst (generateEach E env b tpl tes ies ld i rs s) = Some e \<Longrightarrow>
   (\<exists>key. E key = Inl e) \<or> e = Error ''Failed to convert canvas to blob''"
  by (induction rs arbitrary: i s)
     (auto simp: Let_def canvasToBlob_def split: sum.splits if_splits dest: renderCertificate_thrown)

lemma recipient_events:
  "(initialEvent rs)\<lparr>current := j, currentName := Some (name (rs ! j))\<rparr> = recipientEvent rs j"
  by (simp add: initialEvent_def recipientEvent_def)

lemma run_load_failure:
  assumes "\<not> imagesLoad env tpl ies"
  shows "\<exists>source. generateBatch E env rs tpl tes ies b =
           \<lparr>rejected = Some (Error (''Failed to load image: '' @ source)),
            events = (if b then [initialEvent rs,
                      failedEvent (initialEvent rs) (Error (''Failed to load image: '' @ source))]
                      else []),
            download = None\<rparr>"
proof (cases "imageLoads env (backgroundImage tpl)")
  case False
  then show ?thesis
    by (simp add: generateBatch_def tryGenerate_def loadImage_def Let_def emit_def
        initialEvent_def failedEvent_def)
next
  case True
  then have "\<not> list_all (\<lambda>element. imageLoads env (src element)) ies"
    using assms by (simp add: imagesLoad_def)
  from loadImages_fail [OF this] obtain source where
    "loadImages env ies = Inl (Error (''Failed to load image: '' @ source))" ..
  then show ?thesis
    using True
    by (simp add: generateBatch_def tryGenerate_def loadImage_def Let_def emit_def
        initialEvent_def failedEvent_def)
qed

lemma run_frame_failure:
  assumes loads: "imagesLoad env tpl ies"
    and bad: "\<not> list_all (framed E env tpl tes ies (backgroundImage tpl, loadedAll ies)) rs"
  shows "\<exists>e. ((\<exists>key. E key = Inl e) \<or> e = Error ''Failed to convert canvas to blob'')
            \<and> generateBatch E env rs tpl tes ies b =
               \<lparr>rejected = Some e,
                events = (if b then initialEvent rs
                  # map (recipientEvent rs)
                      [0..<reached (framed E env tpl tes ies (backgroundImage tpl, loadedAll ies)) rs]
                  @ [failedEvent (recipientEvent rs
                       (reached (framed E env tpl tes ies (backgroundImage tpl, loadedAll ies)) rs - 1)) e]
                  else []),
                download = None\<rparr>"
proof -
  let ?ld = "(backgroundImage tpl, loadedAll ies)"
  let ?s0 = "\<lparr>progress = initialEvent rs, zip = [], emitted = (if b then [initialEvent rs] else [])\<rparr>"
  obtain res s' where g: "generateEach E env b tpl tes ies ?ld 0 rs ?s0 = (res, s')"
    by (cases "generateEach E env b tpl tes ies ?ld 0 rs ?s0")
  have "res \<noteq> None"
    using each_result [of E env b tpl tes ies ?ld 0 rs ?s0] bad g by simp
  then obtain e where e: "res = Some e" by auto
  have thrown: "(\<exists>key. E key = Inl e) \<or> e = Error ''Failed to convert canvas to blob''"
    using each_thrown [of E env b tpl tes ies ?ld 0 rs ?s0 e] g e by simp
  have rs: "rs \<noteq> []" using bad by auto
  have em: "emitted s' = (if b then initialEvent rs # map (recipientEvent rs) [0..<reached (framed E env tpl tes ies ?ld) rs] else [])"
    using each_emitted [of E env b tpl tes ies ?ld 0 rs ?s0] g
    by (simp add: recipient_events del: upt_Suc)
  have pr: "progress s' = recipientEvent rs (reached (framed E env tpl tes ies ?ld) rs - 1)"
    using each_progress [of E env b tpl tes ies ?ld 0 rs ?s0] g rs
    by (simp add: initialEvent_def recipientEvent_def)
  have "generateBatch E env rs tpl tes ies b =
          \<lparr>rejected = Some e, events = emitted s' @ (if b then [failedEvent (progress s') e] else []),
           download = None\<rparr>"
    using loads g e
    by (cases b)
       (simp_all add: generateBatch_def tryGenerate_def loadImage_def loadImages_ok imagesLoad_def
         Let_def emit_def initialEvent_def failedEvent_def)
  then show ?thesis using thrown em pr by auto
qed

lemma run_frames_ok:
  assumes loads: "imagesLoad env tpl ies"
    and ok: "list_all (framed E env tpl tes ies (backgroundImage tpl, loadedAll ies)) rs"
  shows "\<exists>entries. map fst entries = foldl addName [] (map certificateFilename rs)
            \<and> map_of entries = map_of (rev (map (\<lambda>r. (certificateFilename r,
                  frameOf E tpl tes ies (backgroundImage tpl, loadedAll ies) r)) rs))
            \<and> generateBatch E env rs tpl tes ies b =
               (case archiveFailure env entries of
                  None \<Rightarrow>
                    \<lparr>rejected = None,
                     events = (if b then initialEvent rs # map (recipientEvent rs) [0..<length rs]
                                @ [completeEvent rs] else []),
                     download = Some (archiveName env, entries)\<rparr>
                | Some e \<Rightarrow>
                    \<lparr>rejected = Some e,
                     events = (if b then initialEvent rs # map (recipientEvent rs) [0..<length rs]
                                @ [completeEvent rs, failedEvent (completeEvent rs) e] else []),
                     download = None\<rparr>)"
proof -
  let ?ld = "(backgroundImage tpl, loadedAll ies)"
  let ?s0 = "\<lparr>progress = initialEvent rs, zip = [], emitted = (if b then [initialEvent rs] else [])\<rparr>"
  obtain res s' where g: "generateEach E env b tpl tes ies ?ld 0 rs ?s0 = (res, s')"
    by (cases "generateEach E env b tpl tes ies ?ld 0 rs ?s0")
  have res: "res = None"
    using each_result [of E env b tpl tes ies ?ld 0 rs ?s0] ok g by simp
  have em: "emitted s' = (if b then initialEvent rs # map (recipientEvent rs) [0..<length rs] else [])"
    using each_emitted [of E env b tpl tes ies ?ld 0 rs ?s0] g reached_all [OF ok]
    by (simp add: recipient_events del: upt_Suc)
  have pr: "(progress s')\<lparr>current := length rs, status := Complete\<rparr> = completeEvent rs"
    using each_progress [of E env b tpl tes ies ?ld 0 rs ?s0] g reached_all [OF ok]
    by (simp add: initialEvent_def completeEvent_def last_conv_nth)
  have names: "map fst (zip s') = foldl addName [] (map certificateFilename rs)"
    using each_zip [OF ok, of b 0 ?s0] g by simp
  have contents: "map_of (zip s') = map_of (rev (map (\<lambda>r. (certificateFilename r,
                  frameOf E tpl tes ies ?ld r)) rs))"
    using each_zip_contents [OF ok, of b 0 ?s0] g by simp
  have "generateBatch E env rs tpl tes ies b =
          (case archiveFailure env (zip s') of
             None \<Rightarrow>
               \<lparr>rejected = None, events = emitted s' @ (if b then [completeEvent rs] else []),
                download = Some (archiveName env, zip s')\<rparr>
           | Some e \<Rightarrow>
               \<lparr>rejected = Some e,
                events = emitted s' @ (if b then [completeEvent rs, failedEvent (completeEvent rs) e] else []),
                download = None\<rparr>)"
    using loads g res pr
    by (cases b)
       (simp_all add: generateBatch_def tryGenerate_def loadImage_def loadImages_ok imagesLoad_def
         Let_def emit_def initialEvent_def failedEvent_def archiveName_def split: option.splits)
  then show ?thesis using names contents em by (intro exI [of _ "zip s'"]) (simp split: option.splits)
qed

lemma run_cases:
  obtains (load) source where
      "\<not> imagesLoad env tpl ies"
      "generateBatch E env rs tpl tes ies b =
         \<lparr>rejected = Some (Error (''Failed to load image: '' @ source)),
          events = (if b then [initialEvent rs,
                      failedEvent (initialEvent rs) (Error (''Failed to load image: '' @ source))]
                    else []),
          download = None\<rparr>"
  | (frame) e where
      "imagesLoad env tpl ies"
      "\<not> list_all (framed E env tpl tes ies (backgroundImage tpl, loadedAll ies)) rs"
      "(\<exists>key. E key = Inl e) \<or> e = Error ''Failed to convert canvas to blob''"
      "generateBatch E env rs tpl tes ies b =
         \<lparr>rejected = Some e,
          events = (if b then initialEvent rs
            # map (recipientEvent rs)
                [0..<reached (framed E env tpl tes ies (backgroundImage tpl, loadedAll ies)) rs]
            @ [failedEvent (recipientEvent rs
                 (reached (framed E env tpl tes ies (backgroundImage tpl, loadedAll ies)) rs - 1)) e]
            else []),
          download = None\<rparr>"
  | (archive) entries e where
      "imagesLoad env tpl ies"
      "list_all (framed E env tpl tes ies (backgroundImage tpl, loadedAll ies)) rs"
      "map fst entries = foldl addName [] (map certificateFilename rs)"
      "archiveFailure env entries = Some e"
      "generateBatch E env rs tpl tes ies b =
         \<lparr>rejected = Some e,
          events = (if b then initialEvent rs # map (recipientEvent rs) [0..<length rs]
                      @ [completeEvent rs, failedEvent (completeEvent rs) e] else []),
          download = None\<rparr>"
  | (success) entries where
      "imagesLoad env tpl ies"
      "list_all (framed E env tpl tes ies (backgroundImage tpl, loadedAll ies)) rs"
      "map fst entries = foldl addName [] (map certificateFilename rs)"
      "archiveFailure env entries = None"
      "map_of entries = map_of (rev (map (\<lambda>r. (certificateFilename r,
                  frameOf E tpl tes ies (backgroundImage tpl, loadedAll ies) r)) rs))"
      "generateBatch E env rs tpl tes ies b =
         \<lparr>rejected = None,
          events = (if b then initialEvent rs # map (recipientEvent rs) [0..<length rs]
                      @ [completeEvent rs] else []),
          download = Some (archiveName env, entries)\<rparr>"
proof (cases "imagesLoad env tpl ies")
  case False
  then show ?thesis using run_load_failure [OF False, of E rs tes b] load by blast
next
  case loads: True
  show ?thesis
  proof (cases "list_all (framed E env tpl tes ies (backgroundImage tpl, loadedAll ies)) rs")
    case False
    then show ?thesis using run_frame_failure [OF loads False, of b] frame loads by blast
  next
    case True
    from run_frames_ok [OF loads True, of b] obtain entries where
      n: "map fst entries = foldl addName [] (map certificateFilename rs)" and
      c: "map_of entries = map_of (rev (map (\<lambda>r. (certificateFilename r,
                  frameOf E tpl tes ies (backgroundImage tpl, loadedAll ies) r)) rs))" and
      r: "generateBatch E env rs tpl tes ies b =
               (case archiveFailure env entries of
                  None \<Rightarrow>
                    \<lparr>rejected = None,
                     events = (if b then initialEvent rs # map (recipientEvent rs) [0..<length rs]
                                @ [completeEvent rs] else []),
                     download = Some (archiveName env, entries)\<rparr>
                | Some e \<Rightarrow>
                    \<lparr>rejected = Some e,
                     events = (if b then initialEvent rs # map (recipientEvent rs) [0..<length rs]
                                @ [completeEvent rs, failedEvent (completeEvent rs) e] else []),
                     download = None\<rparr>)"
      by blast
    show ?thesis
    proof (cases "archiveFailure env entries")
      case None
      then show ?thesis using success [OF loads True n None c] r by simp
    next
      case (Some e)
      then show ?thesis using archive [OF loads True n Some] r by simp
    qed
  qed
qed

section \<open>The claims on the batch generator\<close>

text \<open>
  C1 as stated: a run that completes leaves an archive with as many entries as recipients.
  The recipients \<^verbatim>\<open>Ann\<close> and \<^verbatim>\<open>ann!\<close> have the same file name; the run completes and the
  archive has the single entry \<^verbatim>\<open>certificate_ann.png\<close>.
\<close>

theorem archive_entries_counterexample:
  "rejected (generateBatch (\<lambda>key. Inl NonError)
       \<lparr>imageLoads = \<lambda>source. True, encodes = \<lambda>canvas. True,
        archiveFailure = \<lambda>entries. None, now = 17\<rparr>
       [\<lparr>name = ''Ann'', title = None, date = None, customFields = None\<rparr>,
        \<lparr>name = ''ann!'', title = None, date = None, customFields = None\<rparr>]
       \<lparr>templateId = ''t'', templateName = ''T'', backgroundImage = ''bg.png'',
        width = 800, height = 600\<rparr>
       [] [] False) = None
   \<and> map_option (\<lambda>file. map fst (snd file))
       (download (generateBatch (\<lambda>key. Inl NonError)
         \<lparr>imageLoads = \<lambda>source. True, encodes = \<lambda>canvas. True,
          archiveFailure = \<lambda>entries. None, now = 17\<rparr>
         [\<lparr>name = ''Ann'', title = None, date = None, customFields = None\<rparr>,
          \<lparr>name = ''ann!'', title = None, date = None, customFields = None\<rparr>]
         \<lparr>templateId = ''t'', templateName = ''T'', backgroundImage = ''bg.png'',
          width = 800, height = 600\<rparr>
         [] [] False))
     = Some [''certificate_ann.png'']"
  by code_simp

text \<open>
  C1, amended. If the run is not rejected, the file handed over for download is named
  \<^verbatim>\<open>certificates_batch_<now>.zip\<close> and has one entry for every file name
  \<^verbatim>\<open>certificate_<sanitized name>.png\<close> of a recipient: no name twice, and no other name. So it
  has as many entries as the recipients have distinct file names. The entry of a name holds
  the certificate of the last recipient with that file name. When the file names of the
  recipients are pairwise distinct the entries are those of the recipients, in their order,
  and there are as many as recipients.
\<close>

theorem archive_entries:
  assumes "rejected (generateBatch E env rs tpl tes ies b) = None"
  shows "\<exists>entries.
           download (generateBatch E env rs tpl tes ies b)
             = Some (''certificates_batch_'' @ showNat (now env) @ ''.zip'', entries)
         \<and> distinct (map fst entries)
         \<and> set (map fst entries) = set (map certificateFilename rs)
         \<and> length entries = card (set (map certificateFilename rs))
         \<and> map_of entries
             = map_of (rev (map (\<lambda>r. (certificateFilename r,
                 frameOf E tpl tes ies (backgroundImage tpl, loadedAll ies) r)) rs))
         \<and> (distinct (map certificateFilename rs)
              \<longrightarrow> map fst entries = map certificateFilename rs \<and> length entries = length rs)"
proof (cases rule: run_cases [of env tpl ies E rs tes b])
  case (load source)
  then show ?thesis using assms by simp
next
  case (frame e)
  then show ?thesis using assms by simp
next
  case (archive entries e)
  then show ?thesis using assms by simp
next
  case (success entries)
  have d: "distinct (map fst entries)"
    using addName_distinct [of "[]" "map certificateFilename rs"] success(3) by simp
  have s: "set (map fst entries) = set (map certificateFilename rs)"
    using addName_set [of "[]" "map certificateFilename rs"] success(3) by simp
  have l: "length entries = card (set (map certificateFilename rs))"
    using distinct_card [OF d] s by simp
  have f: "map fst entries = map certificateFilename rs" if "distinct (map certificateFilename rs)"
    using addName_fresh [of "[]" "map certificateFilename rs"] that success(3) by simp
  have fl: "length entries = length rs" if "distinct (map certificateFilename rs)"
    using f [OF that] by (metis length_map)
  show ?thesis
    using success(6) success(5) d s l f fl by (simp add: archiveName_def)
qed

theorem archive_entries_witness:
  "\<exists>entries.
     download (generateBatch (\<lambda>key. Inl NonError)
       \<lparr>imageLoads = \<lambda>source. True, encodes = \<lambda>canvas. True,
        archiveFailure = \<lambda>entries. None, now = 17\<rparr>
       [\<lparr>name = ''Ann'', title = None, date = None, customFields = None\<rparr>,
        \<lparr>name = ''Bo'', title = None, date = None, customFields = None\<rparr>]
       \<lparr>templateId = ''t'', templateName = ''T'', backgroundImage = ''bg.png'',
        width = 800, height = 600\<rparr>
       [] [] True) = Some (''certificates_batch_17.zip'', entries)
     \<and> map fst entries = [''certificate_ann.png'', ''certificate_bo.png'']
     \<and> length entries = 2"
proof -
  have ok: "rejected (generateBatch (\<lambda>key. Inl NonError)
       \<lparr>imageLoads = \<lambda>source. True, encodes = \<lambda>canvas. True,
        archiveFailure = \<lambda>entries. None, now = 17\<rparr>
       [\<lparr>name = ''Ann'', title = None, date = None, customFields = None\<rparr>,
        \<lparr>name = ''Bo'', title = None, date = None, customFields = None\<rparr>]
       \<lparr>templateId = ''t'', templateName = ''T'', backgroundImage = ''bg.png'',
        width = 800, height = 600\<rparr>
       [] [] True) = None"
    by code_simp
  have names:
    "certificateFilename \<lparr>name = ''Ann'', title = None, date = None, customFields = None\<rparr>
       = ''certificate_ann.png''"
    "certificateFilename \<lparr>name = ''Bo'', title = None, date = None, customFields = None\<rparr>
       = ''certificate_bo.png''"
    by code_simp+
  have zipName: "''certificates_batch_'' @ showNat 17 @ ''.zip'' = ''certificates_batch_17.zip''"
    by (simp add: showNat.simps)
  from archive_entries [OF ok] obtain entries where
    "download (generateBatch (\<lambda>key. Inl NonError)
       \<lparr>imageLoads = \<lambda>source. True, encodes = \<lambda>canvas. True,
        archiveFailure = \<lambda>entries. None, now = 17\<rparr>
       [\<lparr>name = ''Ann'', title = None, date = None, customFields = None\<rparr>,
        \<lparr>name = ''Bo'', title = None, date = None, customFields = None\<rparr>]
       \<lparr>templateId = ''t'', templateName = ''T'', backgroundImage = ''bg.png'',
        width = 800, height = 600\<rparr>
       [] [] True)
      = Some (''certificates_batch_'' @ showNat (now
          \<lparr>imageLoads = \<lambda>source. True, encodes = \<lambda>canvas. True,
           archiveFailure = \<lambda>entries. None, now = 17\<rparr>) @ ''.zip'', entries)"
    and "distinct (map certificateFilename
       [\<lparr>name = ''Ann'', title = None, date = None, customFields = None\<rparr>,
        \<lparr>name = ''Bo'', title = None, date = None, customFields = None\<rparr>])
      \<longrightarrow> map fst entries = map certificateFilename
       [\<lparr>name = ''Ann'', title = None, date = None, customFields = None\<rparr>,
        \<lparr>name = ''Bo'', title = None, date = None, customFields = None\<rparr>]
        \<and> length entries = length
       [\<lparr>name = ''Ann'', title = None, date = None, customFields = None\<rparr>,
        \<lparr>name = ''Bo'', title = None, date = None, customFields = None\<rparr>]"
    by blast
  then show ?thesis
    using zipName by (simp add: names)
qed

text \<open>
  C2 as stated: the indices of the events increase strictly, and there is one event for
  each recipient and a last one. A run for one recipient that completes gives three events
  with the indices 0, 0, 1: the initial event comes before the event of the recipient and
  has its index. A run for one recipient whose background image does not load gives the
  initial event and the failure, both with index 0, and no event for the recipient.
\<close>

theorem progress_events_counterexample:
  "map current (events (generateBatch (\<lambda>key. Inl NonError)
       \<lparr>imageLoads = \<lambda>source. True, encodes = \<lambda>canvas. True,
        archiveFailure = \<lambda>entries. None, now = 17\<rparr>
       [\<lparr>name = ''Ann'', title = None, date = None, customFields = None\<rparr>]
       \<lparr>templateId = ''t'', templateName = ''T'', backgroundImage = ''bg.png'',
        width = 800, height = 600\<rparr>
       [] [] True)) = [0, 0, 1]
   \<and> \<not> sorted_wrt (<) [0, 0, 1 :: nat]
   \<and> map current (events (generateBatch (\<lambda>key. Inl NonError)
       \<lparr>imageLoads = \<lambda>source. False, encodes = \<lambda>canvas. True,
        archiveFailure = \<lambda>entries. None, now = 17\<rparr>
       [\<lparr>name = ''Ann'', title = None, date = None, customFields = None\<rparr>]
       \<lparr>templateId = ''t'', templateName = ''T'', backgroundImage = ''bg.png'',
        width = 800, height = 600\<rparr>
       [] [] True)) = [0, 0]"
  by code_simp

text \<open>
  C2, amended. The callback receives: first the initial event, whose index is 0; then one
  event for each recipient whose processing begins, in their order, the event of the
  recipient at index \<open>j\<close> having the index \<open>j\<close> and the name of that recipient; then the last
  event. When the run is not rejected, the images have loaded, the certificate of every
  recipient has been rendered and encoded, every recipient has its event and the last event
  is the completion, with the number of recipients as index. When the run is rejected
  because an image does not load, no recipient has an event and the failure repeats the
  initial event with the status and the message of the failure. When it is rejected at the
  recipient at index \<open>k\<close>, the first whose certificate cannot be rendered or encoded, the
  recipients at the indices 0, ..., \<open>k\<close> have their events, no recipient after \<open>k\<close> has, and
  the failure repeats the event of the recipient \<open>k\<close>. When it is rejected because the
  archive cannot be generated, every recipient has its event, the completion follows, and
  the failure repeats the completion. The index never decreases along the events.
\<close>

theorem progress_events_ordered:
  "(case rejected (generateBatch E env rs tpl tes ies True) of
      None \<Rightarrow>
        imagesLoad env tpl ies
        \<and> list_all (framed E env tpl tes ies (backgroundImage tpl, loadedAll ies)) rs
        \<and> events (generateBatch E env rs tpl tes ies True)
            = initialEvent rs # map (recipientEvent rs) [0..<length rs] @ [completeEvent rs]
    | Some e \<Rightarrow>
        if \<not> imagesLoad env tpl ies
        then events (generateBatch E env rs tpl tes ies True)
               = [initialEvent rs, failedEvent (initialEvent rs) e]
        else if list_all (framed E env tpl tes ies (backgroundImage tpl, loadedAll ies)) rs
        then events (generateBatch E env rs tpl tes ies True)
               = initialEvent rs # map (recipientEvent rs) [0..<length rs]
                   @ [completeEvent rs, failedEvent (completeEvent rs) e]
        else \<exists>k<length rs.
               list_all (framed E env tpl tes ies (backgroundImage tpl, loadedAll ies)) (take k rs)
               \<and> \<not> framed E env tpl tes ies (backgroundImage tpl, loadedAll ies) (rs ! k)
               \<and> events (generateBatch E env rs tpl tes ies True)
                   = initialEvent rs # map (recipientEvent rs) [0..<Suc k]
                       @ [failedEvent (recipientEvent rs k) e])
   \<and> sorted (map current (events (generateBatch E env rs tpl tes ies True)))"
proof -
  have cur: "map current (initialEvent rs # map (recipientEvent rs) [0..<k]) = 0 # [0..<k]" for k
    by (simp add: initialEvent_def recipientEvent_def comp_def map_idI del: upt_Suc)
  have srt: "sorted (0 # [0..<k] @ cs)" if "sorted cs" "\<forall>c\<in>set cs. k \<le> Suc c" for k cs
    using that by (auto simp: sorted_append)
  show ?thesis
  proof (cases rule: run_cases [of env tpl ies E rs tes True])
    case (load source)
    then show ?thesis by (simp add: initialEvent_def failedEvent_def)
  next
    case (frame e)
    let ?ok = "framed E env tpl tes ies (backgroundImage tpl, loadedAll ies)"
    let ?k = "reached ?ok rs - 1"
    have rs: "rs \<noteq> []" using frame(2) by auto
    have pos: "0 < reached ?ok rs" by (rule reached_pos [OF rs])
    then have suc: "reached ?ok rs = Suc ?k" by simp
    have fst: "?k < length rs" "list_all ?ok (take ?k rs)" "\<not> ?ok (rs ! ?k)"
      using reached_first [OF frame(2)] by simp_all
    have ev: "events (generateBatch E env rs tpl tes ies True)
                = initialEvent rs # map (recipientEvent rs) [0..<Suc ?k]
                    @ [failedEvent (recipientEvent rs ?k) e]"
      using frame(4) suc by (simp del: upt_Suc)
    have "sorted (0 # [0..<Suc ?k] @ [?k])"
      by (intro srt) auto
    then have "sorted (map current (events (generateBatch E env rs tpl tes ies True)))"
      using cur [of "Suc ?k"] by (simp add: ev failedEvent_def recipientEvent_def del: upt_Suc)
    moreover have "\<exists>k<length rs. list_all ?ok (take k rs) \<and> \<not> ?ok (rs ! k)
        \<and> events (generateBatch E env rs tpl tes ies True)
            = initialEvent rs # map (recipientEvent rs) [0..<Suc k] @ [failedEvent (recipientEvent rs k) e]"
      using fst ev by blast
    ultimately show ?thesis
      using frame(1,2) by (simp add: frame(4) del: upt_Suc)
  next
    case (archive entries e)
    have "sorted (0 # [0..<length rs] @ [length rs, length rs])"
      by (intro srt) auto
    then have "sorted (map current (events (generateBatch E env rs tpl tes ies True)))"
      using cur [of "length rs"] by (simp add: archive(5) failedEvent_def completeEvent_def del: upt_Suc)
    then show ?thesis
      using archive(1,2) by (simp add: archive(5) del: upt_Suc)
  next
    case (success entries)
    have "sorted (0 # [0..<length rs] @ [length rs])"
      by (intro srt) auto
    then have "sorted (map current (events (generateBatch E env rs tpl tes ies True)))"
      using cur [of "length rs"] by (simp add: success(6) completeEvent_def del: upt_Suc)
    then show ?thesis
      using success(1,2) by (simp add: success(6) del: upt_Suc)
  qed
qed

theorem progress_events_ordered_witness:
  "map (\<lambda>p. (current p, currentName p, status p))
     (events (generateBatch (\<lambda>key. Inl (Error ''Invalid regular expression''))
       \<lparr>imageLoads = \<lambda>source. True, encodes = \<lambda>canvas. True,
        archiveFailure = \<lambda>entries. None, now = 17\<rparr>
       [\<lparr>name = ''Ann'', title = None, date = None, customFields = None\<rparr>,
        \<lparr>name = ''Bo'', title = None, date = None, customFields = Some [(''('', ''x'')]\<rparr>,
        \<lparr>name = ''Cy'', title = None, date = None, customFields = None\<rparr>]
       \<lparr>templateId = ''t'', templateName = ''T'', backgroundImage = ''bg.png'',
        width = 800, height = 600\<rparr>
       [\<lparr>textId = ''1'', textText = ''{{name}}'',
         textPosition = \<lparr>positionX = 10, positionY = 10\<rparr>, fontSize = 12,
         fontFamily = ''Arial'', color = ''black'', textWeight = Bold, textStyle = NormalStyle,
         textAlignment = AlignLeft\<rparr>] [] True))
   = [(0, None, Processing), (0, Some ''Ann'', Processing), (1, Some ''Bo'', Processing),
      (1, Some ''Bo'', Failed)]"
  (is "map ?f (events (generateBatch ?E ?env ?rs ?tpl ?tes [] True)) = _")
proof -
  let ?ok = "framed ?E ?env ?tpl ?tes [] (backgroundImage ?tpl, loadedAll [])"
  have rej: "rejected (generateBatch ?E ?env ?rs ?tpl ?tes [] True)
               = Some (Error ''Invalid regular expression'')"
    by code_simp
  have loads: "imagesLoad ?env ?tpl []"
    by code_simp
  have ann: "?ok \<lparr>name = ''Ann'', title = None, date = None, customFields = None\<rparr>"
    by code_simp
  have bo: "\<not> ?ok \<lparr>name = ''Bo'', title = None, date = None, customFields = Some [(''('', ''x'')]\<rparr>"
    by code_simp
  have notall: "\<not> list_all ?ok ?rs"
    using bo by simp
  from progress_events_ordered [where E = ?E and env = ?env and rs = ?rs and tpl = ?tpl and tes = ?tes and ies = "[]"]
  obtain k where k: "k < length ?rs" "list_all ?ok (take k ?rs)" "\<not> ?ok (?rs ! k)"
    and ev: "events (generateBatch ?E ?env ?rs ?tpl ?tes [] True)
               = initialEvent ?rs # map (recipientEvent ?rs) [0..<Suc k]
                   @ [failedEvent (recipientEvent ?rs k) (Error ''Invalid regular expression'')]"
    unfolding rej option.case using loads notall by auto
  have "k = 0 \<or> k = 1 \<or> k = 2"
    using k(1) by auto
  then have "k = 1"
  proof (elim disjE)
    assume "k = 0"
    then show ?thesis using k(3) ann by simp
  next
    assume "k = 1"
    then show ?thesis .
  next
    assume "k = 2"
    then show ?thesis using k(2) bo by (simp add: numeral_2_eq_2)
  qed
  then show ?thesis
    using ev by (simp add: initialEvent_def recipientEvent_def failedEvent_def errorMessage_def)
qed



end
